(* ===== verification/Prelude.thy ===== *)
theory Prelude
  imports Main "HOL-Library.Multiset" "HOL-Library.Sublist" "HOL-Library.Word"
begin

text \<open>
  Shared vocabulary of the development: the classification of Boost error codes that
  both programs test, the named collections the component theories fill, and generic
  lemmas on lists and multisets that the component proofs use.
\<close>

named_theorems handler_defs
  "definitions of the client session's handlers, unfolded together in invariant proofs"

named_theorems inv_defs
  "definitions of the conjuncts of the session invariant"

text \<open>
  A \<open>beast::error_code\<close> as the sources test it: \<open>if (ec)\<close> separates success from
  failure, and the handlers compare it with \<open>beast::error::timeout\<close> (client) and
  \<open>websocket::error::closed\<close> (server). Every other code is \<open>EcOther\<close>.
\<close>

datatype err_code = EcOk | EcTimeout | EcClosed | EcOther

type_synonym payload = string

subsection \<open>Generic lemmas\<close>

lemma size_filter_mset_diff_single [simp]:
  "x \<in># M \<Longrightarrow> size (filter_mset P (M - {#x#})) =
     size (filter_mset P M) - (if P x then 1 else 0)"
  by (induction M) (auto simp: size_Diff_submset)

lemma size_filter_mset_add [simp]:
  "size (filter_mset P (add_mset x M)) = size (filter_mset P M) + (if P x then 1 else 0)"
  by simp

lemma mem_diff_single_mset:
  "y \<in># M - {#x#} \<Longrightarrow> y \<in># M"
  by (rule in_diffD)

lemma count_le_one_add [simp]:
  "count (add_mset x M) y = count M y + (if x = y then 1 else 0)"
  by simp

lemma drop_append_short [simp]:
  "n \<le> length xs \<Longrightarrow> drop n (xs @ ys) = drop n xs @ ys"
  by simp

lemma count_list_append_single [simp]:
  "count_list (xs @ [x]) y = count_list xs y + (if x = y then 1 else 0)"
  by (induction xs) auto

end
