(* ===== verification/Session.thy ===== *)
theory Session
  imports Prelude
begin

text \<open>
  The client's \<open>WebsocketSession\<close> (src/beast_issue_client.cpp, lines 48--253).
  The C++ object is the record \<open>session\<close>; each member function is one definition that
  takes the session and returns it updated. The Beast stream is not modelled inside:
  what the session asks of it is recorded, the asynchronous operations it has started
  and not yet seen complete are the multiset \<open>pending\<close>, and every call it makes into
  the transport is appended to \<open>calls\<close>, in order. A completion handler runs when the
  environment delivers the completion of a pending operation (\<open>session_step\<close>).
\<close>

subsection \<open>State\<close>

text \<open>\<open>websocket::stream_base::timeout\<close>, as installed by \<open>on_connect\<close>.\<close>

record ws_timeout =
  handshake_timeout :: nat
  idle_timeout :: nat
  keep_alive_pings :: bool

definition client_timeout :: ws_timeout where
  "client_timeout = \<lparr>handshake_timeout = 20, idle_timeout = 6, keep_alive_pings = True\<rparr>"

text \<open>The asynchronous operations the session starts; a write carries its buffer.\<close>

datatype async_op = OpResolve | OpConnect | OpHandshake | OpRead | OpWrite payload | OpClose

text \<open>The calls that start them, as they reach the resolver and the stream.\<close>

datatype transport_call =
    CallResolve string string
  | CallConnect
  | CallHandshake string string
  | CallRead
  | CallWrite "bool option" payload
  | CallClose

text \<open>What the handlers print (\<open>fail\<close> and the \<open>std::cout\<close> lines).\<close>

datatype log_entry =
    LogRunStart
  | LogFail string err_code
  | LogIdleRead
  | LogIdleWrite
  | LogRecv payload int
  | LogCloseDone

text \<open>
  The fields of the class, with the stream's settings: \<open>text_mode\<close> is \<open>ws_.text\<close>
  (\<open>None\<close>: Beast's default, never set), \<open>tcp_expiry\<close> the \<open>tcp_stream\<close> timer
  (\<open>None\<close>: never), \<open>ws_opt\<close> the websocket timeout option, \<open>read_max\<close> the
  \<open>read_message_max\<close> limit (\<open>None\<close>: Beast's default), \<open>ws_open\<close> what
  \<open>ws_.is_open()\<close> returns. \<open>recvCount_\<close> is a C++ \<open>int\<close>.
\<close>

record session =
  host :: string
  port :: string
  send_queue :: "payload list"
  has_close :: bool
  recv_count :: int
  is_connected :: bool
  text_mode :: "bool option"
  tcp_expiry :: "nat option"
  ws_opt :: "ws_timeout option"
  read_max :: "nat option"
  ws_open :: bool
  pending :: "async_op multiset"
  calls :: "transport_call list"
  diag :: "log_entry list"

text \<open>The constructor: \<open>hasClose_(false), recvCount_(0), isConnected_(false)\<close>.\<close>

definition new_session :: session where
  "new_session = \<lparr>host = [], port = [], send_queue = [], has_close = False, recv_count = 0,
     is_connected = False, text_mode = None, tcp_expiry = None, ws_opt = None,
     read_max = None, ws_open = False, pending = {#}, calls = [], diag = []\<rparr>"

subsection \<open>Operations\<close>

definition start_op :: "async_op \<Rightarrow> transport_call \<Rightarrow> session \<Rightarrow> session" where
  "start_op op c s = s\<lparr>pending := add_mset op (pending s), calls := calls s @ [c]\<rparr>"

definition log_line :: "log_entry \<Rightarrow> session \<Rightarrow> session" where
  "log_line e s = s\<lparr>diag := diag s @ [e]\<rparr>"

text \<open>\<open>fail(ec, what)\<close>: one line on \<open>std::cerr\<close>.\<close>

definition fail :: "err_code \<Rightarrow> string \<Rightarrow> session \<Rightarrow> session" where
  "fail ec what s = log_line (LogFail what ec) s"

definition run :: "string \<Rightarrow> string \<Rightarrow> session \<Rightarrow> session" where
  "run h p s = start_op OpResolve (CallResolve h p)
     (log_line LogRunStart (s\<lparr>host := h, port := p\<rparr>))"

definition on_resolve :: "err_code \<Rightarrow> session \<Rightarrow> session" where
  "on_resolve ec s =
     (if ec \<noteq> EcOk then fail ec ''resolve'' s
      else start_op OpConnect CallConnect (s\<lparr>tcp_expiry := Some 30\<rparr>))"

definition on_connect :: "err_code \<Rightarrow> session \<Rightarrow> session" where
  "on_connect ec s =
     (if ec \<noteq> EcOk then fail ec ''connect'' s
      else start_op OpHandshake (CallHandshake (host s) ''/'')
        (s\<lparr>text_mode := Some True, tcp_expiry := None, read_max := Some 1048576,
           ws_opt := Some client_timeout\<rparr>))"

definition on_handshake :: "err_code \<Rightarrow> session \<Rightarrow> session" where
  "on_handshake ec s =
     (if ec \<noteq> EcOk then fail ec ''handshake'' s
      else start_op OpRead CallRead (s\<lparr>is_connected := True\<rparr>))"

definition on_read :: "err_code \<Rightarrow> payload \<Rightarrow> session \<Rightarrow> session" where
  "on_read ec m s =
     (let s1 = (if ec \<noteq> EcOk
                then (let s' = fail ec ''read'' s in
                      if ec = EcTimeout then log_line LogIdleRead s' else s')
                else s\<lparr>recv_count := recv_count s + 1,
                       diag := diag s @ [LogRecv m (recv_count s + 1)]\<rparr>)
      in if ws_open s1 then start_op OpRead CallRead s1 else s1)"

definition do_send :: "payload \<Rightarrow> session \<Rightarrow> session" where
  "do_send m s =
     (if \<not> ws_open s then s else start_op (OpWrite m) (CallWrite (text_mode s) m) s)"

definition send_message :: "payload \<Rightarrow> session \<Rightarrow> session" where
  "send_message m s =
     (let s1 = s\<lparr>send_queue := send_queue s @ [m]\<rparr>
      in if length (send_queue s1) \<le> 1 then do_send (hd (send_queue s1)) s1 else s1)"

text \<open>
  \<open>on_write\<close> pops the front first; \<open>std::list::pop_front\<close> on an empty list is
  undefined behaviour, the value \<open>None\<close> here.
\<close>

definition on_write :: "err_code \<Rightarrow> session \<Rightarrow> session option" where
  "on_write ec s =
     (case send_queue s of
        [] \<Rightarrow> None
      | _ # q \<Rightarrow>
          (let s1 = s\<lparr>send_queue := q\<rparr>;
               s2 = (if ec \<noteq> EcOk
                     then (let s' = fail ec ''write'' s1 in
                           if ec = EcTimeout then log_line LogIdleWrite s' else s')
                     else s1)
           in Some (if q \<noteq> [] then do_send (hd q) s2 else s2)))"

definition close :: "session \<Rightarrow> session" where
  "close s = (if has_close s then s else start_op OpClose CallClose (s\<lparr>has_close := True\<rparr>))"

definition on_close :: "err_code \<Rightarrow> session \<Rightarrow> session" where
  "on_close ec s = (if ec \<noteq> EcOk then fail ec ''close'' s else log_line LogCloseDone s)"

text \<open>The accessors \<open>main\<close> polls: \<open>getRecvCount()\<close> and \<open>isConnected()\<close>.\<close>

definition getRecvCount :: "session \<Rightarrow> int" where
  "getRecvCount s = recv_count s"

definition isConnected :: "session \<Rightarrow> bool" where
  "isConnected s = is_connected s"

declare getRecvCount_def [simp] isConnected_def [simp]

declare start_op_def [handler_defs] log_line_def [handler_defs] fail_def [handler_defs]
  run_def [handler_defs] on_resolve_def [handler_defs] on_connect_def [handler_defs]
  on_handshake_def [handler_defs] on_read_def [handler_defs] do_send_def [handler_defs]
  send_message_def [handler_defs] close_def [handler_defs] on_close_def [handler_defs]

subsection \<open>Events: calls from the program and completions from the stream\<close>

text \<open>
  The session is driven by two sources: the program calls \<open>run\<close>, \<open>sendMessage\<close>
  and \<open>close\<close>; the I/O context invokes a completion handler when an operation the
  session started completes, with the error code the stream reports. A completion can
  only be delivered for an operation that is pending. \<open>StreamLost\<close> is the stream
  closing under the session (an idle timeout tears it down, the peer closes), after
  which \<open>ws_.is_open()\<close> is false; a successful handshake opens it, the completion of
  \<open>async_close\<close> closes it.
\<close>

datatype sess_event =
    Run string string
  | SendMessage payload
  | CloseCall
  | ResolveDone err_code
  | ConnectDone err_code
  | HandshakeDone err_code
  | ReadDone err_code payload
  | WriteDone err_code payload
  | CloseDone err_code
  | StreamLost

datatype sess_error = NotPending | PopEmpty

definition complete :: "async_op \<Rightarrow> (session \<Rightarrow> session) \<Rightarrow> session \<Rightarrow> sess_error + session" where
  "complete op h s =
     (if op \<in># pending s then Inr (h (s\<lparr>pending := pending s - {#op#}\<rparr>)) else Inl NotPending)"

fun session_step :: "session \<Rightarrow> sess_event \<Rightarrow> sess_error + session" where
  "session_step s (Run h p) = Inr (run h p s)"
| "session_step s (SendMessage m) = Inr (send_message m s)"
| "session_step s CloseCall = Inr (close s)"
| "session_step s (ResolveDone ec) = complete OpResolve (on_resolve ec) s"
| "session_step s (ConnectDone ec) = complete OpConnect (on_connect ec) s"
| "session_step s (HandshakeDone ec) =
     complete OpHandshake (\<lambda>t. on_handshake ec (t\<lparr>ws_open := (ec = EcOk)\<rparr>)) s"
| "session_step s (ReadDone ec m) = complete OpRead (on_read ec m) s"
| "session_step s (WriteDone ec m) =
     (if OpWrite m \<in># pending s
      then (case on_write ec (s\<lparr>pending := pending s - {#OpWrite m#}\<rparr>) of
              None \<Rightarrow> Inl PopEmpty
            | Some t \<Rightarrow> Inr t)
      else Inl NotPending)"
| "session_step s (CloseDone ec) = complete OpClose (\<lambda>t. on_close ec (t\<lparr>ws_open := False\<rparr>)) s"
| "session_step s StreamLost = Inr (s\<lparr>ws_open := False\<rparr>)"

fun run_events :: "session \<Rightarrow> sess_event list \<Rightarrow> sess_error + session" where
  "run_events s [] = Inr s"
| "run_events s (e # es) = (case session_step s e of Inl err \<Rightarrow> Inl err | Inr t \<Rightarrow> run_events t es)"

subsection \<open>The session invariant\<close>

fun is_write :: "async_op \<Rightarrow> bool" where
  "is_write (OpWrite _) = True"
| "is_write _ = False"

fun is_resolve_call :: "transport_call \<Rightarrow> bool" where
  "is_resolve_call (CallResolve _ _) = True"
| "is_resolve_call _ = False"

definition nwrites :: "async_op multiset \<Rightarrow> nat" where
  "nwrites M = size (filter_mset is_write M)"

definition runs :: "session \<Rightarrow> nat" where
  "runs s = length (filter is_resolve_call (calls s))"

definition chain_ops :: "session \<Rightarrow> nat" where
  "chain_ops s = count (pending s) OpResolve + count (pending s) OpConnect
     + count (pending s) OpHandshake + count (pending s) OpRead"

text \<open>At most one write is in flight, and its buffer is the front of the queue.\<close>

fun buffer_is_front :: "payload list \<Rightarrow> async_op \<Rightarrow> bool" where
  "buffer_is_front q (OpWrite m) \<longleftrightarrow> q \<noteq> [] \<and> m = hd q"
| "buffer_is_front q _ \<longleftrightarrow> True"

definition write_front :: "session \<Rightarrow> bool" where
  "write_front s \<longleftrightarrow> nwrites (pending s) \<le> 1 \<and>
     (\<forall>op \<in># pending s. buffer_is_front (send_queue s) op)"

text \<open>A close frame is requested once, exactly when \<open>hasClose_\<close> is set.\<close>

definition close_once :: "session \<Rightarrow> bool" where
  "close_once s \<longleftrightarrow> count_list (calls s) CallClose = (if has_close s then 1 else 0)
     \<and> count (pending s) OpClose \<le> count_list (calls s) CallClose"

text \<open>Each \<open>run\<close> starts one chain resolve, connect, handshake, read loop.\<close>

definition chain_bound :: "session \<Rightarrow> bool" where
  "chain_bound s \<longleftrightarrow> chain_ops s \<le> runs s"

definition session_inv :: "session \<Rightarrow> bool" where
  "session_inv s \<longleftrightarrow> write_front s \<and> close_once s \<and> chain_bound s"

declare runs_def [inv_defs] chain_ops_def [inv_defs]
  write_front_def [inv_defs] close_once_def [inv_defs] chain_bound_def [inv_defs]

text \<open>
  The states the session reaches from its constructor through any sequence of program
  calls and completions; the program (\<open>main\<close>) is one such sequence.
\<close>

inductive reachable :: "session \<Rightarrow> bool" where
  init: "reachable new_session"
| step: "reachable s \<Longrightarrow> session_step s e = Inr t \<Longrightarrow> reachable t"

inductive_cases reachable_stepE: "reachable t"

text \<open>
  A connected session that has queued two messages: the shape of state the witnesses
  below evaluate.
\<close>

abbreviation demo_session :: session where
  "demo_session \<equiv> projr (run_events new_session [Run ''localhost'' ''8080'', ResolveDone EcOk,
      ConnectDone EcOk, HandshakeDone EcOk, SendMessage ''userMsg:1'', SendMessage ''userMsg:2''])"

subsection \<open>Preservation of the invariant\<close>

lemma nwrites_add [simp]: "nwrites (add_mset op M) = nwrites M + (if is_write op then 1 else 0)"
  by (simp add: nwrites_def)

lemma nwrites_diff [simp]:
  "op \<in># M \<Longrightarrow> nwrites (M - {#op#}) = nwrites M - (if is_write op then 1 else 0)"
  by (simp add: nwrites_def size_Diff_singleton)

lemma nwrites_zero_iff: "nwrites M = 0 \<longleftrightarrow> (\<forall>op \<in># M. \<not> is_write op)"
  by (auto simp: nwrites_def)

lemma buffer_is_front_append [simp]:
  "q \<noteq> [] \<Longrightarrow> buffer_is_front (q @ ys) op = buffer_is_front q op"
  by (cases op) auto

lemma buffer_is_front_nonwrite [simp]: "\<not> is_write op \<Longrightarrow> buffer_is_front q op"
  by (cases op) auto

lemma no_write_if_empty:
  "write_front s \<Longrightarrow> send_queue s = [] \<Longrightarrow> \<forall>op \<in># pending s. \<not> is_write op"
  unfolding write_front_def
  by (metis buffer_is_front.simps(1) is_write.elims(2))

lemma mset_le_one_mem:
  assumes "size M \<le> 1" "x \<in># M"
  shows "M = {#x#}"
proof -
  from assms(2) obtain N where N: "M = add_mset x N" by (blast dest: multi_member_split)
  with assms(1) have "N = {#}" by simp
  with N show ?thesis by simp
qed

lemma only_write_removed:
  assumes "write_front s" "OpWrite m \<in># pending s"
  shows "\<forall>op \<in># pending s - {#OpWrite m#}. \<not> is_write op"
proof -
  have F: "filter_mset is_write (pending s) = {#OpWrite m#}"
    using assms by (intro mset_le_one_mem) (simp_all add: write_front_def nwrites_def)
  have "filter_mset is_write (pending s - {#OpWrite m#})
      = filter_mset is_write (pending s) - filter_mset is_write {#OpWrite m#}"
    by (rule filter_diff_mset)
  also have "\<dots> = {#}" by (simp only: F) simp
  finally show ?thesis by (simp only: filter_mset_eq_mempty_iff) blast
qed

lemma write_front_start_op [simp]:
  "\<not> is_write op \<Longrightarrow> write_front (start_op op c s) = write_front s"
  by (simp add: write_front_def start_op_def)

lemma write_front_log_line [simp]: "write_front (log_line e s) = write_front s"
  by (simp add: write_front_def log_line_def)

lemma write_front_send_message:
  assumes "write_front s"
  shows "write_front (send_message m s)"
proof (cases "send_queue s")
  case Nil
  with assms have nw: "\<forall>op \<in># pending s. \<not> is_write op" by (rule no_write_if_empty)
  then have "nwrites (pending s) = 0" by (simp only: nwrites_zero_iff)
  with nw Nil show ?thesis
    by (auto simp: send_message_def do_send_def start_op_def write_front_def Let_def)
next
  case (Cons x q)
  with assms show ?thesis
    by (auto simp: send_message_def write_front_def simp del: append_Cons
        dest: buffer_is_front_append [of "x # q" "[m]", THEN iffD2, rotated])
qed

lemma write_front_on_write:
  assumes "write_front s" "OpWrite m \<in># pending s"
    and "on_write ec (s\<lparr>pending := pending s - {#OpWrite m#}\<rparr>) = Some t"
  shows "write_front t"
proof -
  let ?p = "pending s - {#OpWrite m#}"
  have nw: "\<forall>op \<in># ?p. \<not> is_write op" using assms(1,2) by (rule only_write_removed)
  then have "nwrites ?p = 0" by (simp only: nwrites_zero_iff)
  with nw assms(3) show ?thesis
    by (auto simp: on_write_def do_send_def start_op_def log_line_def fail_def write_front_def Let_def
        split: list.splits if_splits)
qed


lemma close_once_step:
  "session_step s e = Inr t \<Longrightarrow> close_once s \<Longrightarrow> close_once t"
  by (cases e) (auto simp: complete_def handler_defs close_once_def on_write_def Let_def
      split: if_splits list.splits option.splits)

lemma chain_bound_step:
  "session_step s e = Inr t \<Longrightarrow> chain_bound s \<Longrightarrow> chain_bound t"
  by (cases e) (auto simp: complete_def handler_defs chain_bound_def chain_ops_def runs_def
      on_write_def Let_def simp flip: count_greater_zero_iff split: if_splits list.splits option.splits)


lemma write_front_remove_nonwrite [simp]:
  "op \<in># pending s \<Longrightarrow> \<not> is_write op \<Longrightarrow> write_front s \<Longrightarrow>
     write_front (s\<lparr>pending := pending s - {#op#}\<rparr>)"
  by (auto simp: write_front_def dest: in_diffD)

lemma write_front_complete:
  assumes "complete op h s = Inr t" "\<not> is_write op" "write_front s"
    and "\<And>u. write_front u \<Longrightarrow> write_front (h u)"
  shows "write_front t"
  using assms by (auto simp: complete_def split: if_splits)

lemma write_front_handlers [simp]:
  "write_front (on_resolve ec s) = write_front s"
  "write_front (on_connect ec s) = write_front s"
  "write_front (on_handshake ec s) = write_front s"
  "write_front (on_read ec m s) = write_front s"
  "write_front (on_close ec s) = write_front s"
  "write_front (close s) = write_front s"
  "write_front (run h p s) = write_front s"
  "write_front (s\<lparr>ws_open := b\<rparr>) = write_front s"
  by (simp_all add: handler_defs Let_def write_front_def)

lemma write_front_step:
  assumes "session_step s e = Inr t" "write_front s"
  shows "write_front t"
proof (cases e)
  case (SendMessage m)
  with assms show ?thesis by (auto intro: write_front_send_message)
next
  case (WriteDone ec m)
  with assms show ?thesis
    by (auto intro: write_front_on_write split: if_splits option.splits)
next
  case (ResolveDone ec)
  with assms show ?thesis by (auto elim: write_front_complete)
next
  case (ConnectDone ec)
  with assms show ?thesis by (auto elim: write_front_complete)
next
  case (HandshakeDone ec)
  with assms show ?thesis by (auto elim: write_front_complete)
next
  case (ReadDone ec m)
  with assms show ?thesis by (auto elim: write_front_complete)
next
  case (CloseDone ec)
  with assms show ?thesis by (auto elim: write_front_complete)
qed (use assms in auto)

lemma session_inv_step:
  "session_step s e = Inr t \<Longrightarrow> session_inv s \<Longrightarrow> session_inv t"
  unfolding session_inv_def
  by (blast intro: write_front_step close_once_step chain_bound_step)

lemma session_inv_new: "session_inv new_session"
  by (simp add: session_inv_def new_session_def inv_defs nwrites_def)

lemma reachable_inv: "reachable s \<Longrightarrow> session_inv s"
proof (induction rule: reachable.induct)
  case init
  show ?case by (rule session_inv_new)
next
  case (step s e t)
  then show ?case by (blast intro: session_inv_step)
qed

lemma run_events_inv:
  "run_events s es = Inr t \<Longrightarrow> session_inv s \<Longrightarrow> session_inv t"
  by (induction es arbitrary: s) (auto split: sum.splits intro: session_inv_step)

lemma run_events_reachable:
  "run_events s es = Inr t \<Longrightarrow> reachable s \<Longrightarrow> reachable t"
  by (induction es arbitrary: s) (auto split: sum.splits intro: reachable.step)

lemma reachable_run_events:
  "run_events new_session es = Inr t \<Longrightarrow> reachable t"
  using run_events_reachable reachable.init by blast

lemma reachable_projr:
  "\<not> isl (run_events new_session es) \<Longrightarrow> reachable (projr (run_events new_session es))"
  by (rule reachable_run_events) (cases "run_events new_session es"; simp)

lemma demo_session_reachable: "reachable demo_session"
  by (rule reachable_projr) (simp add: new_session_def handler_defs complete_def Let_def)

lemmas demo_session_eval = new_session_def handler_defs complete_def Let_def

lemma write_pending_front:
  "session_inv s \<Longrightarrow> OpWrite m \<in># pending s \<Longrightarrow> send_queue s \<noteq> [] \<and> m = hd (send_queue s)"
  unfolding session_inv_def write_front_def by (metis buffer_is_front.simps(1))

subsection \<open>Properties of the session\<close>

text \<open>
  C2: in every reachable state of the session at most one \<open>async_write\<close> is outstanding,
  however the program calls \<open>sendMessage\<close> and in whatever order the writes complete.
\<close>

theorem write_single_in_flight:
  "reachable s \<Longrightarrow> nwrites (pending s) \<le> 1"
  using reachable_inv by (auto simp: session_inv_def write_front_def)

theorem write_single_in_flight_witness:
  "reachable demo_session \<and> nwrites (pending demo_session) \<le> 1"
  using write_single_in_flight [OF demo_session_reachable] demo_session_reachable by simp

text \<open>
  C3: the buffer of the outstanding write is the front element of \<open>sendMessageQueue_\<close>:
  \<open>net::buffer(msg)\<close> refers to a list element that \<open>on_write\<close> pops only once the
  write has completed, so the buffer outlives the operation.
\<close>

theorem write_buffer_is_front:
  "reachable s \<Longrightarrow> OpWrite m \<in># pending s \<Longrightarrow> send_queue s \<noteq> [] \<and> m = hd (send_queue s)"
  using reachable_inv write_pending_front by blast

theorem write_buffer_is_front_witness:
  "reachable demo_session \<and> OpWrite ''userMsg:1'' \<in># pending demo_session
   \<and> send_queue demo_session \<noteq> [] \<and> ''userMsg:1'' = hd (send_queue demo_session)"
proof -
  have w: "OpWrite ''userMsg:1'' \<in># pending demo_session" by (simp add: demo_session_eval)
  from write_buffer_is_front [OF demo_session_reachable w] demo_session_reachable w
  show ?thesis by simp
qed

text \<open>
  C6: the completion of a pending write never reaches \<open>pop_front\<close> on an empty queue,
  the undefined behaviour that \<open>on_write\<close> would have on an empty list.
\<close>

theorem write_completion_defined:
  "reachable s \<Longrightarrow> OpWrite m \<in># pending s \<Longrightarrow> \<exists>t. session_step s (WriteDone ec m) = Inr t"
proof -
  assume r: "reachable s" and w: "OpWrite m \<in># pending s"
  from r w have "send_queue s \<noteq> []" using reachable_inv write_pending_front by blast
  with w show ?thesis by (auto simp: on_write_def Let_def split: list.splits)
qed

theorem write_completion_defined_witness:
  "reachable demo_session \<and> OpWrite ''userMsg:1'' \<in># pending demo_session
   \<and> (\<exists>t. session_step demo_session (WriteDone EcTimeout ''userMsg:1'') = Inr t)"
proof -
  have w: "OpWrite ''userMsg:1'' \<in># pending demo_session" by (simp add: demo_session_eval)
  from write_completion_defined [OF demo_session_reachable w] demo_session_reachable w
  show ?thesis by simp
qed

text \<open>
  C4: \<open>async_close\<close> is called at most once in every reachable state, and it has been
  called exactly when \<open>hasClose_\<close> is set.
\<close>

theorem close_request_once:
  "reachable s \<Longrightarrow> count_list (calls s) CallClose = (if has_close s then 1 else 0)"
  using reachable_inv by (auto simp: session_inv_def close_once_def)

theorem close_request_once_witness:
  "reachable (close demo_session) \<and> count_list (calls (close demo_session)) CallClose = 1"
proof -
  have r: "reachable (close demo_session)"
    using demo_session_reachable reachable.step [where e = CloseCall] by simp
  have "has_close (close demo_session)" by (simp add: close_def start_op_def)
  with close_request_once [OF r] r show ?thesis by simp
qed

text \<open>
  C5: \<open>close()\<close> is idempotent: a second call changes nothing, and the first call on a
  session that has not closed adds exactly one close request.
\<close>

theorem close_idempotent:
  "close (close s) = close s \<and>
   count_list (calls (close s)) CallClose =
     count_list (calls s) CallClose + (if has_close s then 0 else 1)"
  by (simp add: close_def start_op_def)

text \<open>
  C7: as long as \<open>run\<close> has been called at most once, at most one \<open>async_read\<close> is
  outstanding: the read loop re-arms only from the completion of the previous read.
\<close>

theorem read_single_in_flight:
  "reachable s \<Longrightarrow> runs s \<le> 1 \<Longrightarrow> count (pending s) OpRead \<le> 1"
  using reachable_inv by (fastforce simp: session_inv_def chain_bound_def chain_ops_def)

theorem read_single_in_flight_witness:
  "reachable demo_session \<and> runs demo_session \<le> 1 \<and> count (pending demo_session) OpRead \<le> 1"
proof -
  have n: "runs demo_session \<le> 1" by (simp add: demo_session_eval runs_def)
  from read_single_in_flight [OF demo_session_reachable n] demo_session_reachable n
  show ?thesis by simp
qed

text \<open>
  C8: the read loop, on every branch of \<open>on_read\<close>: a successful read adds one to
  \<open>recvCount_\<close>, a failed one (time-out or other) leaves it; either way the next
  \<open>async_read\<close> is started exactly when \<open>ws_.is_open()\<close> holds, so a time-out on an
  open stream re-arms the loop and a closed stream ends it silently.
\<close>

theorem on_read_rearm:
  "pending (on_read ec m s) = (if ws_open s then add_mset OpRead (pending s) else pending s)
   \<and> recv_count (on_read ec m s) = recv_count s + (if ec = EcOk then 1 else 0)
   \<and> send_queue (on_read ec m s) = send_queue s \<and> has_close (on_read ec m s) = has_close s"
  by (simp add: handler_defs Let_def)

text \<open>
  C9: a read that completes with \<open>websocket::error::closed\<close> (the peer's graceful close)
  is reported by \<open>fail(ec, "read")\<close> like any other error: the client's read loop does
  not tell a graceful close from a failure.
\<close>

theorem on_read_logs_graceful_close:
  "diag (on_read EcClosed m s) = diag s @ [LogFail ''read'' EcClosed]"
  by (simp add: handler_defs Let_def)

text \<open>
  C16: a read that times out is reported twice, by \<open>fail\<close> and by the
  \<open>idle timeout when read\<close> line, and nothing else is logged.
\<close>

theorem on_read_timeout_log:
  "diag (on_read EcTimeout m s) = diag s @ [LogFail ''read'' EcTimeout, LogIdleRead]"
  by (simp add: handler_defs Let_def)

text \<open>
  C33: the write completion on every branch. \<open>on_write\<close> pops the front whatever the
  error code, reports a failure with \<open>fail\<close> and a timeout also with the
  \<open>idle timeout when write\<close> line, and starts the write of the next queued message
  when there is one and the stream is open: a write error does not stop the queue.
\<close>

theorem on_write_proceeds:
  "send_queue s = m # q \<Longrightarrow>
     \<exists>t. on_write ec s = Some t \<and> send_queue t = q
       \<and> pending t = (if q \<noteq> [] \<and> ws_open s then add_mset (OpWrite (hd q)) (pending s) else pending s)
       \<and> diag t = diag s @ (if ec = EcOk then [] else
                   LogFail ''write'' ec # (if ec = EcTimeout then [LogIdleWrite] else []))"
  by (auto simp: on_write_def do_send_def start_op_def fail_def log_line_def Let_def)

theorem on_write_proceeds_witness:
  "send_queue (new_session\<lparr>send_queue := [''a'', ''b''], ws_open := True\<rparr>) = ''a'' # [''b'']
   \<and> (\<exists>t. on_write EcTimeout (new_session\<lparr>send_queue := [''a'', ''b''], ws_open := True\<rparr>) = Some t
        \<and> send_queue t = [''b''] \<and> pending t = {#OpWrite ''b''#}
        \<and> diag t = [LogFail ''write'' EcTimeout, LogIdleWrite])"
  using on_write_proceeds [of "new_session\<lparr>send_queue := [''a'', ''b''], ws_open := True\<rparr>" "''a''" "[''b'']" EcTimeout]
  by (simp add: new_session_def)

end
