(* ===== verification/Outbound_Queue.thy ===== *)
theory Outbound_Queue
  imports Session
begin

text \<open>
  The outbound queue of the session (\<open>sendMessage\<close>, \<open>doSend\<close>, \<open>on_write\<close> over
  \<open>sendMessageQueue_\<close>) against an abstract FIFO: a list of payloads already handed
  to the transport and a list still waiting, where enqueueing appends to the waiting
  list and transmitting moves its head to the end of the transmitted list. The session
  refines it: every event maps the abstraction of the state to the abstraction of its
  successor by enqueueing what the event enqueues and transmitting at most once.
\<close>

subsection \<open>The abstract FIFO\<close>

record fifo =
  transmitted :: "payload list"
  waiting :: "payload list"

definition fifo_enqueue :: "payload \<Rightarrow> fifo \<Rightarrow> fifo" where
  "fifo_enqueue m f = f\<lparr>waiting := waiting f @ [m]\<rparr>"

definition fifo_transmit :: "fifo \<Rightarrow> fifo" where
  "fifo_transmit f =
     (case waiting f of
        [] \<Rightarrow> f
      | m # w \<Rightarrow> \<lparr>transmitted = transmitted f @ [m], waiting = w\<rparr>)"

definition fifo_contents :: "fifo \<Rightarrow> payload list" where
  "fifo_contents f = transmitted f @ waiting f"

subsection \<open>Abstraction of the session\<close>

text \<open>The payloads of the \<open>async_write\<close> calls, in the order they were made.\<close>

fun writes_of :: "transport_call list \<Rightarrow> payload list" where
  "writes_of [] = []"
| "writes_of (CallWrite _ m # cs) = m # writes_of cs"
| "writes_of (_ # cs) = writes_of cs"

text \<open>
  A payload is transmitted once its write has been started; the front of the queue is
  still in the list while its write is in flight, so the waiting payloads are the queue
  without that front.
\<close>

definition abs_fifo :: "session \<Rightarrow> fifo" where
  "abs_fifo s = \<lparr>transmitted = writes_of (calls s),
                 waiting = drop (nwrites (pending s)) (send_queue s)\<rparr>"

text \<open>What an event asks the queue to carry: the payload of \<open>sendMessage\<close>.\<close>

fun enqueued :: "sess_event \<Rightarrow> payload list" where
  "enqueued (SendMessage m) = [m]"
| "enqueued _ = []"

definition sent_of :: "sess_event list \<Rightarrow> payload list" where
  "sent_of es = concat (map enqueued es)"

text \<open>The abstract step an event asks of the FIFO before any transmission.\<close>

fun fifo_accept :: "sess_event \<Rightarrow> fifo \<Rightarrow> fifo" where
  "fifo_accept (SendMessage m) f = fifo_enqueue m f"
| "fifo_accept _ f = f"

subsection \<open>Lemmas\<close>

lemma writes_of_append [simp]: "writes_of (cs @ ds) = writes_of cs @ writes_of ds"
  by (induction cs rule: writes_of.induct) auto

lemma fifo_transmit_simps [simp]:
  "fifo_transmit \<lparr>transmitted = t, waiting = []\<rparr> = \<lparr>transmitted = t, waiting = []\<rparr>"
  "fifo_transmit \<lparr>transmitted = t, waiting = m # w\<rparr> = \<lparr>transmitted = t @ [m], waiting = w\<rparr>"
  by (simp_all add: fifo_transmit_def)

lemma fifo_contents_transmit [simp]: "fifo_contents (fifo_transmit f) = fifo_contents f"
  by (simp add: fifo_contents_def fifo_transmit_def split: list.splits)

lemma fifo_contents_enqueue [simp]: "fifo_contents (fifo_enqueue m f) = fifo_contents f @ [m]"
  by (simp add: fifo_contents_def fifo_enqueue_def)

lemma abs_fifo_handlers [simp]:
  "abs_fifo (on_resolve ec s) = abs_fifo s"
  "abs_fifo (on_connect ec s) = abs_fifo s"
  "abs_fifo (on_handshake ec s) = abs_fifo s"
  "abs_fifo (on_read ec m s) = abs_fifo s"
  "abs_fifo (on_close ec s) = abs_fifo s"
  "abs_fifo (close s) = abs_fifo s"
  "abs_fifo (run h p s) = abs_fifo s"
  "abs_fifo (s\<lparr>ws_open := b\<rparr>) = abs_fifo s"
  by (simp_all add: handler_defs Let_def abs_fifo_def)

lemma abs_fifo_complete:
  "complete op h s = Inr t \<Longrightarrow> \<not> is_write op \<Longrightarrow> (\<And>u. abs_fifo (h u) = abs_fifo u) \<Longrightarrow>
     abs_fifo t = abs_fifo s"
  by (auto simp: complete_def abs_fifo_def split: if_splits)

lemma abs_fifo_send_message:
  assumes "session_inv s"
  shows "abs_fifo (send_message m s) = fifo_enqueue m (abs_fifo s) \<or>
         abs_fifo (send_message m s) = fifo_transmit (fifo_enqueue m (abs_fifo s))"
proof (cases "send_queue s")
  case Nil
  have "write_front s" using assms by (simp add: session_inv_def)
  then have "\<forall>op \<in># pending s. \<not> is_write op" using Nil by (rule no_write_if_empty)
  then have "nwrites (pending s) = 0" by (simp only: nwrites_zero_iff)
  with Nil show ?thesis
    by (auto simp: send_message_def do_send_def start_op_def abs_fifo_def fifo_enqueue_def Let_def)
next
  case (Cons x q)
  from assms have "nwrites (pending s) \<le> 1" by (simp add: session_inv_def write_front_def)
  then have "drop (nwrites (pending s)) ((x # q) @ [m]) = drop (nwrites (pending s)) (x # q) @ [m]"
    by (intro drop_append_short) simp
  with Cons show ?thesis
    by (simp add: send_message_def abs_fifo_def fifo_enqueue_def)
qed

lemma nwrites_pos: "op \<in># M \<Longrightarrow> is_write op \<Longrightarrow> 0 < nwrites M"
  by (auto simp: nwrites_def nonempty_has_size [symmetric])

lemma abs_fifo_on_write:
  assumes "session_inv s" "OpWrite m \<in># pending s"
    and "on_write ec (s\<lparr>pending := pending s - {#OpWrite m#}\<rparr>) = Some t"
  shows "abs_fifo t = abs_fifo s \<or> abs_fifo t = fifo_transmit (abs_fifo s)"
proof -
  let ?p = "pending s - {#OpWrite m#}"
  have wf: "write_front s" using assms(1) by (simp add: session_inv_def)
  have nw: "\<forall>op \<in># ?p. \<not> is_write op" using wf assms(2) by (rule only_write_removed)
  then have z: "nwrites ?p = 0" by (simp only: nwrites_zero_iff)
  have one: "nwrites (pending s) = 1"
    using wf assms(2) nwrites_pos [OF assms(2)] by (simp add: write_front_def)
  from wf assms(2) obtain q where q: "send_queue s = m # q"
    by (cases "send_queue s") (auto simp: write_front_def)
  show ?thesis
  proof (cases "q \<noteq> [] \<and> ws_open s")
    case True
    with q z one assms(3) show ?thesis
      by (auto simp: on_write_def do_send_def start_op_def abs_fifo_def Let_def fail_def log_line_def
          neq_Nil_conv split: if_split_asm)
  next
    case False
    with q z one assms(3) show ?thesis
      by (auto simp: on_write_def do_send_def abs_fifo_def Let_def fail_def log_line_def
          split: if_split_asm)
  qed
qed


lemma abs_fifo_step:
  assumes "session_inv s" "session_step s e = Inr t"
  shows "abs_fifo t = fifo_accept e (abs_fifo s) \<or>
         abs_fifo t = fifo_transmit (fifo_accept e (abs_fifo s))"
proof (cases e)
  case (SendMessage m)
  with assms show ?thesis using abs_fifo_send_message by auto
next
  case (WriteDone ec m)
  with assms show ?thesis
    by (auto dest: abs_fifo_on_write split: if_splits option.splits)
qed (use assms in \<open>auto elim: abs_fifo_complete\<close>)

lemma fifo_contents_accept [simp]:
  "fifo_contents (fifo_accept e f) = fifo_contents f @ enqueued e"
  by (cases e) simp_all

lemma fifo_contents_step:
  "session_inv s \<Longrightarrow> session_step s e = Inr t \<Longrightarrow>
     fifo_contents (abs_fifo t) = fifo_contents (abs_fifo s) @ enqueued e"
  by (drule (1) abs_fifo_step) auto

lemma fifo_contents_run:
  "run_events s es = Inr t \<Longrightarrow> session_inv s \<Longrightarrow>
     fifo_contents (abs_fifo t) = fifo_contents (abs_fifo s) @ sent_of es"
proof (induction es arbitrary: s)
  case Nil
  then show ?case by (simp add: sent_of_def)
next
  case (Cons e es)
  then obtain u where u: "session_step s e = Inr u" and r: "run_events u es = Inr t"
    by (auto split: sum.splits)
  from u Cons.prems(2) have "session_inv u" by (rule session_inv_step)
  with r Cons.IH have "fifo_contents (abs_fifo t) = fifo_contents (abs_fifo u) @ sent_of es" by blast
  with fifo_contents_step [OF Cons.prems(2) u] show ?case by (simp add: sent_of_def)
qed

subsection \<open>Properties of the outbound queue\<close>

text \<open>
  C1: FIFO submission. For any sequence of program calls and completions from a fresh
  session, the payloads handed to \<open>async_write\<close>, followed by the queued payloads not
  yet handed over, are exactly the payloads given to \<open>sendMessage\<close>, in order: no
  message is reordered, duplicated or lost inside the queue, and the submitted ones are
  a prefix of the enqueued ones.
\<close>

theorem submitted_writes_fifo:
  "run_events new_session es = Inr t \<Longrightarrow>
     writes_of (calls t) @ drop (nwrites (pending t)) (send_queue t) = sent_of es
     \<and> prefix (writes_of (calls t)) (sent_of es)"
proof -
  assume r: "run_events new_session es = Inr t"
  have "fifo_contents (abs_fifo t) = sent_of es"
    using fifo_contents_run [OF r session_inv_new]
    by (simp add: fifo_contents_def abs_fifo_def new_session_def nwrites_def)
  then have eq: "writes_of (calls t) @ drop (nwrites (pending t)) (send_queue t) = sent_of es"
    by (simp add: fifo_contents_def abs_fifo_def)
  then have "prefix (writes_of (calls t)) (sent_of es)"
    unfolding prefix_def by (metis eq)
  with eq show ?thesis by blast
qed

theorem submitted_writes_fifo_witness:
  "run_events new_session [Run ''localhost'' ''8080'', ResolveDone EcOk,
      ConnectDone EcOk, HandshakeDone EcOk, SendMessage ''userMsg:1'', SendMessage ''userMsg:2''] = Inr demo_session
   \<and> writes_of (calls demo_session) @ drop (nwrites (pending demo_session)) (send_queue demo_session)
       = [''userMsg:1'', ''userMsg:2'']
   \<and> prefix (writes_of (calls demo_session)) [''userMsg:1'', ''userMsg:2'']"
proof -
  have r: "run_events new_session [Run ''localhost'' ''8080'', ResolveDone EcOk,
      ConnectDone EcOk, HandshakeDone EcOk, SendMessage ''userMsg:1'', SendMessage ''userMsg:2''] = Inr demo_session"
    by (simp add: demo_session_eval)
  have "sent_of [Run ''localhost'' ''8080'', ResolveDone EcOk,
      ConnectDone EcOk, HandshakeDone EcOk, SendMessage ''userMsg:1'', SendMessage ''userMsg:2''] = [''userMsg:1'', ''userMsg:2'']"
    by (simp add: sent_of_def)
  with submitted_writes_fifo [OF r] r show ?thesis by simp
qed

text \<open>
  C10: refinement. Every event that the session accepts in a reachable state moves the
  abstraction of the state as the abstract FIFO would: it enqueues the payload of a
  \<open>sendMessage\<close> (nothing otherwise) and then transmits the head of the waiting list
  at most once.
\<close>

theorem session_refines_fifo:
  "reachable s \<Longrightarrow> session_step s e = Inr t \<Longrightarrow>
     abs_fifo t = fifo_accept e (abs_fifo s) \<or>
     abs_fifo t = fifo_transmit (fifo_accept e (abs_fifo s))"
  using reachable_inv abs_fifo_step by blast

theorem session_refines_fifo_witness:
  "reachable demo_session
   \<and> session_step demo_session (SendMessage ''userMsg:3'') = Inr (send_message ''userMsg:3'' demo_session)
   \<and> (abs_fifo (send_message ''userMsg:3'' demo_session)
        = fifo_accept (SendMessage ''userMsg:3'') (abs_fifo demo_session)
      \<or> abs_fifo (send_message ''userMsg:3'' demo_session)
        = fifo_transmit (fifo_accept (SendMessage ''userMsg:3'') (abs_fifo demo_session)))"
proof -
  have st: "session_step demo_session (SendMessage ''userMsg:3'') = Inr (send_message ''userMsg:3'' demo_session)"
    by simp
  from session_refines_fifo [OF demo_session_reachable st] demo_session_reachable st
  show ?thesis by blast
qed

end
