(* ===== verification/Messages.thy ===== *)
theory Messages
  imports Prelude
begin

text \<open>
  The text of the client's messages and the argument handling of both programs.
  \<open>main\<close> of the client formats each message with
  \<open>std::stringstream msg; msg << "userMsg:" << messageNo\<close>
  (src/beast_issue_client.cpp, lines 325--328): the decimal form of a C++ \<open>int\<close>,
  with a minus sign when negative. The parser is the reader's side, used to show that
  the formatting loses nothing: different numbers give different messages.
\<close>

subsection \<open>Printing\<close>

definition digit_char :: "nat \<Rightarrow> char" where
  "digit_char d = char_of (48 + d)"

fun nat_str :: "nat \<Rightarrow> string" where
  "nat_str n = (if n < 10 then [digit_char n] else nat_str (n div 10) @ [digit_char (n mod 10)])"

definition int_str :: "int \<Rightarrow> string" where
  "int_str i = (if i < 0 then CHR ''-'' # nat_str (nat (- i)) else nat_str (nat i))"

definition user_msg :: "int \<Rightarrow> payload" where
  "user_msg n = ''userMsg:'' @ int_str n"

subsection \<open>Parsing\<close>

definition digit_val :: "char \<Rightarrow> nat option" where
  "digit_val c = (let k = of_char c :: nat in if 48 \<le> k \<and> k < 58 then Some (k - 48) else None)"

fun digits_acc :: "nat \<Rightarrow> string \<Rightarrow> nat option" where
  "digits_acc a [] = Some a"
| "digits_acc a (c # cs) = (case digit_val c of None \<Rightarrow> None | Some d \<Rightarrow> digits_acc (10 * a + d) cs)"

definition parse_nat :: "string \<Rightarrow> nat option" where
  "parse_nat s = (if s = [] then None else digits_acc 0 s)"

definition parse_int :: "string \<Rightarrow> int option" where
  "parse_int s =
     (if s \<noteq> [] \<and> hd s = CHR ''-'' then map_option (\<lambda>n. - int n) (parse_nat (tl s))
      else map_option int (parse_nat s))"

definition parse_user_msg :: "payload \<Rightarrow> int option" where
  "parse_user_msg s = (if take 8 s = ''userMsg:'' then parse_int (drop 8 s) else None)"

declare nat_str.simps [simp del]

subsection \<open>Lemmas\<close>

lemma digit_val_digit_char [simp]: "d < 10 \<Longrightarrow> digit_val (digit_char d) = Some d"
  by (simp add: digit_val_def digit_char_def)

lemma digits_acc_snoc:
  "digits_acc a (cs @ [c]) = (case digits_acc a cs of None \<Rightarrow> None
     | Some v \<Rightarrow> (case digit_val c of None \<Rightarrow> None | Some d \<Rightarrow> Some (10 * v + d)))"
  by (induction a cs rule: digits_acc.induct) (auto split: option.splits)

lemma nat_str_nonempty [simp]: "nat_str n \<noteq> []"
  by (subst nat_str.simps) simp

lemma digits_acc_nat_str: "digits_acc 0 (nat_str n) = Some n"
proof (induction n rule: nat_str.induct)
  case (1 n)
  show ?case
  proof (cases "n < 10")
    case True
    then show ?thesis by (subst nat_str.simps) simp
  next
    case False
    with "1.IH" have "digits_acc 0 (nat_str (n div 10)) = Some (n div 10)" by simp
    with False show ?thesis by (subst nat_str.simps) (simp add: digits_acc_snoc)
  qed
qed

lemma digit_char_not_minus [simp]: "d < 10 \<Longrightarrow> digit_char d \<noteq> CHR ''-''"
proof
  assume d: "d < 10" and eq: "digit_char d = CHR ''-''"
  then have "of_char (digit_char d) = (of_char CHR ''-'' :: nat)" by simp
  with d show False by (simp add: digit_char_def)
qed

lemma nat_str_hd_digit: "hd (nat_str n) \<noteq> CHR ''-''"
proof (induction n rule: nat_str.induct)
  case (1 n)
  then show ?case
    by (subst nat_str.simps) (auto simp: hd_append)
qed

lemma parse_int_int_str: "parse_int (int_str n) = Some n"
  using digits_acc_nat_str [of "nat (- n)"] digits_acc_nat_str [of "nat n"] nat_str_hd_digit [of "nat n"]
  by (auto simp: parse_int_def int_str_def parse_nat_def)

lemma user_msg_inj: "user_msg a = user_msg b \<longleftrightarrow> a = b"
proof
  assume "user_msg a = user_msg b"
  then have "parse_int (int_str a) = parse_int (int_str b)" by (simp add: user_msg_def)
  then show "a = b" by (simp add: parse_int_int_str)
qed simp

subsection \<open>Properties of the message text\<close>

text \<open>
  C17: round trip. Reading back the string \<open>main\<close> formats for message number \<open>n\<close> gives
  \<open>n\<close>, for every \<open>int\<close>, negative ones included.
\<close>

theorem user_msg_roundtrip: "parse_user_msg (user_msg n) = Some n"
  by (simp add: parse_user_msg_def user_msg_def parse_int_int_str)

end
