(* ===== verification/Driver.thy ===== *)
theory Driver
  imports Outbound_Queue Messages
begin

text \<open>
  The client's \<open>main\<close> (src/beast_issue_client.cpp, lines 255--360): a loop that first
  lets the I/O context run ready completion handlers (\<open>ioc.poll()\<close>) and then advances
  the stage machine by one iteration. The loop's locals are the record \<open>driver\<close>; the
  session it owns is its field \<open>sess\<close>. \<open>rand() % 5\<close> is an input of the iteration.
  The composed system has two kinds of step: a completion delivered to the session
  during the poll, and one iteration of the stage machine.
\<close>

subsection \<open>Stages\<close>

datatype stage = StageInit | StageConnecting | StageConnected | StageClosing

fun stage_rank :: "stage \<Rightarrow> nat" where
  "stage_rank StageInit = 0"
| "stage_rank StageConnecting = 1"
| "stage_rank StageConnected = 2"
| "stage_rank StageClosing = 3"

text \<open>The stages in the order the loop is meant to pass through them.\<close>

instantiation stage :: linorder
begin

definition less_eq_stage :: "stage \<Rightarrow> stage \<Rightarrow> bool" where
  "less_eq_stage a b \<longleftrightarrow> stage_rank a \<le> stage_rank b"

definition less_stage :: "stage \<Rightarrow> stage \<Rightarrow> bool" where
  "less_stage a b \<longleftrightarrow> stage_rank a < stage_rank b"

instance
proof
  fix a b c :: stage
  show "a < b \<longleftrightarrow> a \<le> b \<and> \<not> b \<le> a" by (auto simp: less_eq_stage_def less_stage_def)
  show "a \<le> a" by (simp add: less_eq_stage_def)
  show "a \<le> b \<Longrightarrow> b \<le> c \<Longrightarrow> a \<le> c" by (simp add: less_eq_stage_def)
  show "a \<le> b \<Longrightarrow> b \<le> a \<Longrightarrow> a = b"
    by (cases a; cases b) (simp_all add: less_eq_stage_def)
  show "a \<le> b \<or> b \<le> a" by (auto simp: less_eq_stage_def)
qed

end

subsection \<open>The loop's state and one iteration\<close>

text \<open>
  \<open>stage\<close>, \<open>messageNo\<close> and \<open>canQuit\<close> are the locals of \<open>main\<close>; \<open>worker\<close> says
  whether the \<open>executor_work_guard\<close> is still held; \<open>arg_host\<close> and \<open>arg_port\<close> are
  \<open>argv[1]\<close> and \<open>argv[2]\<close>.
\<close>

record driver =
  stage :: stage
  message_no :: int
  can_quit :: bool
  worker :: bool
  sess :: session
  arg_host :: string
  arg_port :: string

definition new_driver :: "string \<Rightarrow> string \<Rightarrow> driver" where
  "new_driver h p = \<lparr>stage = StageInit, message_no = 0, can_quit = False, worker = True,
     sess = new_session, arg_host = h, arg_port = p\<rparr>"

text \<open>
  The body of \<open>for(int i = 0; i <= sendCntTogether; ++i)\<close>, run \<open>i\<close> times:
  \<open>++messageNo\<close>, then \<open>sendMessage("userMsg:" + messageNo)\<close>.
\<close>

fun send_burst :: "nat \<Rightarrow> driver \<Rightarrow> driver" where
  "send_burst 0 d = d"
| "send_burst (Suc i) d =
     send_burst i (d\<lparr>message_no := message_no d + 1,
                     sess := send_message (user_msg (message_no d + 1)) (sess d)\<rparr>)"

text \<open>
  \<open>ioc.stopped()\<close> after a poll: the context runs out of work once the work guard has
  been released and no operation is outstanding.
\<close>

definition ioc_stopped :: "driver \<Rightarrow> bool" where
  "ioc_stopped d \<longleftrightarrow> \<not> worker d \<and> pending (sess d) = {#}"

text \<open>One pass of the \<open>switch(stage)\<close>, with \<open>k = rand() % 5\<close>.\<close>

definition main_iter :: "nat \<Rightarrow> driver \<Rightarrow> driver" where
  "main_iter k d =
     (case stage d of
        StageInit \<Rightarrow> d\<lparr>sess := run (arg_host d) (arg_port d) (sess d), stage := StageConnecting\<rparr>
      | StageConnecting \<Rightarrow> (if isConnected (sess d) then d\<lparr>stage := StageConnected\<rparr> else d)
      | StageConnected \<Rightarrow>
          (if getRecvCount (sess d) \<le> 20 then send_burst (Suc k) d
           else d\<lparr>sess := close (sess d), stage := StageClosing, worker := False\<rparr>)
      | StageClosing \<Rightarrow> (if ioc_stopped d then d\<lparr>can_quit := True\<rparr> else d))"

subsection \<open>The composed system\<close>

text \<open>
  \<open>ioc.poll()\<close> runs completion handlers, one event at a time; the program's own calls
  into the session come only from \<open>main_iter\<close>. After \<open>canQuit\<close> the process exits.
\<close>

fun is_completion :: "sess_event \<Rightarrow> bool" where
  "is_completion (Run _ _) = False"
| "is_completion (SendMessage _) = False"
| "is_completion CloseCall = False"
| "is_completion _ = True"

datatype sys_event = Poll sess_event | Iterate nat

fun sys_step :: "driver \<Rightarrow> sys_event \<Rightarrow> driver option" where
  "sys_step d (Poll e) =
     (if can_quit d \<or> \<not> is_completion e then None
      else (case session_step (sess d) e of Inl _ \<Rightarrow> None | Inr s \<Rightarrow> Some (d\<lparr>sess := s\<rparr>)))"
| "sys_step d (Iterate k) = (if can_quit d \<or> 5 \<le> k then None else Some (main_iter k d))"

inductive sys_reachable :: "driver \<Rightarrow> bool" where
  init: "sys_reachable (new_driver h p)"
| step: "sys_reachable d \<Longrightarrow> sys_step d e = Some d' \<Longrightarrow> sys_reachable d'"

fun sys_run :: "driver \<Rightarrow> sys_event list \<Rightarrow> driver option" where
  "sys_run d [] = Some d"
| "sys_run d (e # es) = (case sys_step d e of None \<Rightarrow> None | Some d' \<Rightarrow> sys_run d' es)"

subsection \<open>The loop's invariant\<close>

text \<open>
  What the loop keeps true of itself and of the session it drives: the session is a
  reachable one; \<open>run\<close> has been called once from \<open>kStageConnecting\<close> on; \<open>hasClose_\<close>
  is set exactly in \<open>kStageClosing\<close>, where the work guard is gone; the queue has carried
  exactly \<open>userMsg:1\<close> \<dots> \<open>userMsg:messageNo\<close>; messages are numbered only from
  \<open>kStageConnected\<close> on, when the session is connected; \<open>canQuit\<close> only once stopped.
\<close>

definition drv_inv :: "driver \<Rightarrow> bool" where
  "drv_inv d \<longleftrightarrow>
     reachable (sess d)
     \<and> runs (sess d) = (if stage d = StageInit then 0 else 1)
     \<and> (has_close (sess d) \<longleftrightarrow> stage d = StageClosing)
     \<and> (worker d \<longleftrightarrow> stage d \<noteq> StageClosing)
     \<and> fifo_contents (abs_fifo (sess d)) = map user_msg [1..message_no d]
     \<and> 0 \<le> message_no d
     \<and> (StageConnected \<le> stage d \<longrightarrow> is_connected (sess d))
     \<and> (0 < message_no d \<longrightarrow> StageConnected \<le> stage d)
     \<and> (can_quit d \<longrightarrow> stage d = StageClosing \<and> ioc_stopped d)"


text \<open>
  Connected, fewer than 21 echoes, the stream closed and no operation of the connection
  chain (resolve, connect, handshake, read) outstanding: the read loop has ended.
\<close>

definition stuck :: "driver \<Rightarrow> bool" where
  "stuck d \<longleftrightarrow> stage d = StageConnected \<and> recv_count (sess d) \<le> 20 \<and> \<not> ws_open (sess d)
     \<and> chain_ops (sess d) = 0 \<and> OpClose \<notin># pending (sess d) \<and> \<not> can_quit d
     \<and> \<not> has_close (sess d)"

text \<open>Two runs of the program used by the witnesses: connected with three messages
  queued, and connected with the stream lost after a read time-out.\<close>

definition demo_driver :: driver where
  "demo_driver = the (sys_run (new_driver ''localhost'' ''8080'') [Iterate 0, Poll (ResolveDone EcOk),
      Poll (ConnectDone EcOk), Poll (HandshakeDone EcOk), Iterate 0, Iterate 2])"

definition lost_driver :: driver where
  "lost_driver = the (sys_run (new_driver ''localhost'' ''8080'') [Iterate 0, Poll (ResolveDone EcOk),
      Poll (ConnectDone EcOk), Poll (HandshakeDone EcOk), Iterate 0, Poll StreamLost,
      Poll (ReadDone EcTimeout [])])"

definition conn_driver :: driver where
  "conn_driver = the (sys_run (new_driver ''localhost'' ''8080'') [Iterate 0, Poll (ResolveDone EcOk),
      Poll (ConnectDone EcOk), Poll (HandshakeDone EcOk), Iterate 0])"

definition quit_driver :: driver where
  "quit_driver = the (sys_run conn_driver (replicate 21 (Poll (ReadDone EcOk ''echo''))
      @ [Iterate 0, Poll (CloseDone EcOk), Poll (ReadDone EcClosed []), Iterate 0]))"

subsection \<open>Lemmas\<close>

lemma sys_run_reachable: "sys_run d es = Some d' \<Longrightarrow> sys_reachable d \<Longrightarrow> sys_reachable d'"
  by (induction es arbitrary: d) (auto intro: sys_reachable.step split: option.splits)

lemma sys_run_the_reachable:
  "sys_run (new_driver h p) es \<noteq> None \<Longrightarrow> sys_reachable (the (sys_run (new_driver h p) es))"
  using sys_run_reachable sys_reachable.init by fastforce

lemma send_burst_numeral [simp]:
  "send_burst (numeral n) d =
     send_burst (pred_numeral n) (d\<lparr>message_no := message_no d + 1,
                     sess := send_message (user_msg (message_no d + 1)) (sess d)\<rparr>)"
  by (simp add: numeral_eq_Suc)

lemmas driver_eval = new_driver_def main_iter_def new_session_def handler_defs complete_def Let_def

lemma demo_driver_reachable: "sys_reachable demo_driver"
  unfolding demo_driver_def by (rule sys_run_the_reachable) (simp add: driver_eval)

lemma lost_driver_reachable: "sys_reachable lost_driver"
  unfolding lost_driver_def by (rule sys_run_the_reachable) (simp add: driver_eval)

lemma completion_frame:
  assumes "is_completion e" "session_step s e = Inr t"
  shows "runs t = runs s \<and> has_close t = has_close s \<and> (is_connected s \<longrightarrow> is_connected t)
         \<and> enqueued e = []"
  using assms
  by (cases e) (auto simp: complete_def handler_defs on_write_def runs_def Let_def
      split: if_splits option.splits list.splits)

lemma send_message_frame [simp]:
  "runs (send_message m s) = runs s" "has_close (send_message m s) = has_close s"
  "is_connected (send_message m s) = is_connected s"
  by (simp_all add: handler_defs runs_def Let_def)

lemma send_burst_frame [simp]:
  "stage (send_burst i d) = stage d" "can_quit (send_burst i d) = can_quit d"
  "worker (send_burst i d) = worker d"
  "message_no (send_burst i d) = message_no d + int i"
  "runs (sess (send_burst i d)) = runs (sess d)"
  "has_close (sess (send_burst i d)) = has_close (sess d)"
  "is_connected (sess (send_burst i d)) = is_connected (sess d)"
  by (induction i arbitrary: d) simp_all

lemma send_burst_queue:
  "reachable (sess d) \<Longrightarrow> 0 \<le> message_no d \<Longrightarrow>
     reachable (sess (send_burst i d)) \<and>
     fifo_contents (abs_fifo (sess (send_burst i d))) =
       fifo_contents (abs_fifo (sess d)) @ map user_msg [message_no d + 1 .. message_no d + int i]"
proof (induction i arbitrary: d)
  case 0
  then show ?case by simp
next
  case (Suc i)
  let ?n = "message_no d + 1"
  let ?d = "d\<lparr>message_no := ?n, sess := send_message (user_msg ?n) (sess d)\<rparr>"
  have st: "session_step (sess d) (SendMessage (user_msg ?n)) = Inr (sess ?d)" by simp
  have r: "reachable (sess ?d)" using Suc.prems(1) st by (rule reachable.step)
  have f: "fifo_contents (abs_fifo (sess ?d)) = fifo_contents (abs_fifo (sess d)) @ [user_msg ?n]"
    using fifo_contents_step [OF reachable_inv [OF Suc.prems(1)] st] by simp
  have ih: "reachable (sess (send_burst i ?d)) \<and>
     fifo_contents (abs_fifo (sess (send_burst i ?d))) =
       fifo_contents (abs_fifo (sess ?d)) @ map user_msg [?n + 1 .. ?n + int i]"
    using Suc.IH [OF r] Suc.prems(2) by simp
  have u: "[message_no d + 1 .. message_no d + int (Suc i)] = ?n # [?n + 1 .. ?n + int i]"
    by (simp add: upto.simps [of ?n] add.assoc)
  show ?case using ih f u by simp
qed


lemma new_session_facts [simp]:
  "runs new_session = 0" "fifo_contents (abs_fifo new_session) = []"
  "has_close new_session = False" "pending new_session = {#}"
  by (simp_all add: runs_def new_session_def fifo_contents_def abs_fifo_def nwrites_def)

lemma drv_inv_new: "drv_inv (new_driver h p)"
  by (simp add: drv_inv_def new_driver_def reachable.init less_eq_stage_def)

lemma drv_inv_poll:
  assumes "drv_inv d" "sys_step d (Poll e) = Some d'"
  shows "drv_inv d'"
proof -
  from assms(2) obtain t where c: "is_completion e" "\<not> can_quit d"
    and st: "session_step (sess d) e = Inr t" and d': "d' = d\<lparr>sess := t\<rparr>"
    by (auto split: if_splits sum.splits)
  have r: "reachable (sess d)" using assms(1) by (simp add: drv_inv_def)
  have "reachable t" using r st by (rule reachable.step)
  moreover have "fifo_contents (abs_fifo t) = fifo_contents (abs_fifo (sess d))"
    using fifo_contents_step [OF reachable_inv [OF r] st] completion_frame [OF c(1) st] by simp
  moreover note completion_frame [OF c(1) st] assms(1) c(2)
  ultimately show ?thesis by (auto simp: drv_inv_def d')
qed


lemma runs_run_close [simp]:
  "runs (run h p s) = runs s + 1" "runs (close s) = runs s"
  "has_close (run h p s) = has_close s" "is_connected (run h p s) = is_connected s"
  "has_close (close s)" "is_connected (close s) = is_connected s"
  by (simp_all add: handler_defs runs_def)

lemma upto_join: "0 \<le> n \<Longrightarrow> n \<le> m \<Longrightarrow> [1..n] @ [n + 1..m] = [1..m]"
proof (cases "n = m")
  case False
  assume "0 \<le> n" "n \<le> m"
  with False show ?thesis using upto_split1 [of 1 "n + 1" m] by simp
qed simp

lemma drv_inv_iter:
  assumes inv: "drv_inv d" and nq: "\<not> can_quit d"
  shows "drv_inv (main_iter k d)"
proof (cases "stage d")
  case StageInit
  have st: "session_step (sess d) (Run (arg_host d) (arg_port d)) = Inr (run (arg_host d) (arg_port d) (sess d))"
    by simp
  from inv StageInit have "message_no d = 0"
    by (auto simp: drv_inv_def less_eq_stage_def)
  with inv StageInit reachable.step [OF _ st] show ?thesis
    by (auto simp: drv_inv_def main_iter_def less_eq_stage_def)
next
  case StageConnecting
  with inv show ?thesis by (auto simp: drv_inv_def main_iter_def less_eq_stage_def)
next
  case StageConnected
  show ?thesis
  proof (cases "recv_count (sess d) \<le> 20")
    case True
    let ?b = "send_burst (Suc k) d"
    let ?m = "message_no d"
    have eq: "main_iter k d = ?b" using StageConnected True by (simp add: main_iter_def)
    have r: "reachable (sess d)" and n: "0 \<le> ?m"
      and f: "fifo_contents (abs_fifo (sess d)) = map user_msg [1..?m]"
      using inv by (simp_all add: drv_inv_def)
    have q: "reachable (sess ?b)"
      "fifo_contents (abs_fifo (sess ?b)) = fifo_contents (abs_fifo (sess d)) @ map user_msg [?m + 1 .. ?m + int (Suc k)]"
      using send_burst_queue [OF r n, of "Suc k"] by (simp_all del: send_burst.simps)
    have mb: "message_no ?b = ?m + int (Suc k)" by (simp del: send_burst.simps)
    have "[1..?m] @ [?m + 1 .. ?m + int (Suc k)] = [1..?m + int (Suc k)]"
      using n by (intro upto_join) simp_all
    with q(2) f mb have f': "fifo_contents (abs_fifo (sess ?b)) = map user_msg [1..message_no ?b]"
      by (simp del: send_burst.simps map_append add: map_append [symmetric])
    have "drv_inv ?b"
      using inv nq StageConnected q(1) f' mb n
      by (simp del: send_burst.simps add: drv_inv_def less_eq_stage_def)
    then show ?thesis by (simp only: eq)
  next
    case False
    have st: "session_step (sess d) CloseCall = Inr (close (sess d))" by simp
    from inv StageConnected have "\<not> has_close (sess d)" by (simp add: drv_inv_def)
    with inv StageConnected False reachable.step [OF _ st] show ?thesis
      by (auto simp: drv_inv_def main_iter_def less_eq_stage_def)
  qed
next
  case StageClosing
  with inv show ?thesis by (auto simp: drv_inv_def main_iter_def ioc_stopped_def)
qed

lemma drv_inv_step: "drv_inv d \<Longrightarrow> sys_step d e = Some d' \<Longrightarrow> drv_inv d'"
  by (cases e) (auto intro: drv_inv_poll drv_inv_iter split: if_splits)

lemma sys_reachable_inv: "sys_reachable d \<Longrightarrow> drv_inv d"
  by (induction rule: sys_reachable.induct) (auto intro: drv_inv_new drv_inv_step)

lemma send_burst_closed:
  "\<not> ws_open (sess d) \<Longrightarrow>
     pending (sess (send_burst i d)) = pending (sess d) \<and> \<not> ws_open (sess (send_burst i d))
     \<and> recv_count (sess (send_burst i d)) = recv_count (sess d)
     \<and> length (send_queue (sess (send_burst i d))) = length (send_queue (sess d)) + i"
  by (induction i arbitrary: d) (simp_all add: send_message_def do_send_def Let_def)

lemma stuck_step:
  assumes "stuck d" "sys_step d e = Some d'"
  shows "stuck d'"
proof (cases e)
  case (Poll ev)
  with assms(2) obtain t where c: "is_completion ev" and st: "session_step (sess d) ev = Inr t"
    and d': "d' = d\<lparr>sess := t\<rparr>"
    by (auto split: if_splits sum.splits)
  from assms(1) have z: "count (pending (sess d)) OpResolve = 0" "count (pending (sess d)) OpConnect = 0"
    "count (pending (sess d)) OpHandshake = 0" "count (pending (sess d)) OpRead = 0"
    by (simp_all add: stuck_def chain_ops_def)
  from assms(1) st c z show ?thesis
    by (cases ev) (auto simp: stuck_def d' complete_def handler_defs on_write_def chain_ops_def Let_def
        simp flip: count_greater_zero_iff split: if_splits list.splits option.splits)
next
  case (Iterate k)
  with assms have d': "d' = send_burst (Suc k) d"
    by (auto simp: stuck_def main_iter_def split: if_splits)
  from assms(1) send_burst_closed [of d "Suc k"] show ?thesis
    by (simp del: send_burst.simps add: stuck_def d' chain_ops_def)
qed

lemma stuck_run: "stuck d \<Longrightarrow> sys_run d es = Some d' \<Longrightarrow> stuck d'"
  by (induction es arbitrary: d) (auto intro: stuck_step split: option.splits)

lemma sys_run_append:
  "sys_run d (xs @ ys) = (case sys_run d xs of None \<Rightarrow> None | Some d' \<Rightarrow> sys_run d' ys)"
  by (induction xs arbitrary: d) (auto split: option.splits)

lemma read_echoes:
  assumes "OpRead \<in># pending (sess d)" "ws_open (sess d)" "\<not> can_quit d"
  shows "\<exists>d'. sys_run d (replicate n (Poll (ReadDone EcOk m))) = Some d' \<and> stage d' = stage d
     \<and> worker d' = worker d \<and> \<not> can_quit d' \<and> pending (sess d') = pending (sess d)
     \<and> ws_open (sess d') \<and> has_close (sess d') = has_close (sess d)
     \<and> recv_count (sess d') = recv_count (sess d) + int n"
  using assms
proof (induction n arbitrary: d)
  case 0
  then show ?case by simp
next
  case (Suc n)
  let ?d1 = "d\<lparr>sess := on_read EcOk m ((sess d)\<lparr>pending := pending (sess d) - {#OpRead#}\<rparr>)\<rparr>"
  have st: "sys_step d (Poll (ReadDone EcOk m)) = Some ?d1"
    using Suc.prems by (simp add: complete_def)
  have p: "pending (sess ?d1) = pending (sess d)"
    using Suc.prems by (simp add: on_read_def start_op_def Let_def)
  have f: "OpRead \<in># pending (sess ?d1)" "ws_open (sess ?d1)" "\<not> can_quit ?d1"
    using Suc.prems p by (simp_all add: on_read_def start_op_def Let_def)
  from Suc.IH [OF f] obtain d' where "sys_run ?d1 (replicate n (Poll (ReadDone EcOk m))) = Some d'"
    "stage d' = stage ?d1" "worker d' = worker ?d1" "\<not> can_quit d'" "pending (sess d') = pending (sess ?d1)"
    "ws_open (sess d')" "has_close (sess d') = has_close (sess ?d1)"
    "recv_count (sess d') = recv_count (sess ?d1) + int n" by blast
  with st p show ?case by (simp add: on_read_def start_op_def Let_def)
qed

lemma conn_driver_facts:
  "sys_reachable conn_driver \<and> stage conn_driver = StageConnected \<and> worker conn_driver
   \<and> \<not> can_quit conn_driver \<and> pending (sess conn_driver) = {#OpRead#} \<and> ws_open (sess conn_driver)
   \<and> \<not> has_close (sess conn_driver) \<and> recv_count (sess conn_driver) = 0"
proof -
  have "sys_reachable conn_driver"
    unfolding conn_driver_def by (rule sys_run_the_reachable) (simp add: driver_eval)
  moreover have "stage conn_driver = StageConnected \<and> worker conn_driver
   \<and> \<not> can_quit conn_driver \<and> pending (sess conn_driver) = {#OpRead#} \<and> ws_open (sess conn_driver)
   \<and> \<not> has_close (sess conn_driver) \<and> recv_count (sess conn_driver) = 0"
    by (simp add: conn_driver_def driver_eval)
  ultimately show ?thesis by blast
qed

lemma quit_driver_facts: "sys_reachable quit_driver \<and> can_quit quit_driver"
proof -
  note c = conn_driver_facts
  then obtain d' where r: "sys_run conn_driver (replicate 21 (Poll (ReadDone EcOk ''echo''))) = Some d'"
    and f: "stage d' = StageConnected" "worker d'" "\<not> can_quit d'" "pending (sess d') = {#OpRead#}"
      "ws_open (sess d')" "\<not> has_close (sess d')" "recv_count (sess d') = 21"
    using read_echoes [of conn_driver 21 "''echo''"] by auto
  have "\<exists>q. sys_run d' [Iterate 0, Poll (CloseDone EcOk), Poll (ReadDone EcClosed []), Iterate 0]
    = Some q \<and> can_quit q"
    using f by (simp add: main_iter_def close_def start_op_def complete_def on_close_def on_read_def
        fail_def log_line_def ioc_stopped_def Let_def)
  then obtain q where t: "sys_run d' [Iterate 0, Poll (CloseDone EcOk), Poll (ReadDone EcClosed []), Iterate 0]
    = Some q" and "can_quit q" by blast
  with r have "sys_run conn_driver (replicate 21 (Poll (ReadDone EcOk ''echo''))
      @ [Iterate 0, Poll (CloseDone EcOk), Poll (ReadDone EcClosed []), Iterate 0]) = Some q"
    by (simp add: sys_run_append)
  with c \<open>can_quit q\<close> show ?thesis by (auto simp: quit_driver_def intro: sys_run_reachable)
qed

subsection \<open>Properties of the driving loop\<close>

text \<open>
  C18: the stage never goes back: every step of the system (a completion during the poll
  or one iteration) leaves the stage equal or later in
  \<open>kStageInit < kStageConnecting < kStageConnected < kStageClosing\<close>.
\<close>

theorem stage_monotone: "sys_step d e = Some d' \<Longrightarrow> stage d \<le> stage d'"
proof (cases e)
  case (Poll ev)
  then show "sys_step d e = Some d' \<Longrightarrow> stage d \<le> stage d'"
    by (auto split: if_splits sum.splits)
next
  case (Iterate k)
  then show "sys_step d e = Some d' \<Longrightarrow> stage d \<le> stage d'"
    by (cases "stage d") (auto simp: main_iter_def less_eq_stage_def split: if_splits simp del: send_burst.simps)
qed

theorem stage_monotone_witness:
  "sys_step (new_driver ''h'' ''1'') (Iterate 0) = Some (main_iter 0 (new_driver ''h'' ''1''))
   \<and> stage (new_driver ''h'' ''1'') \<le> stage (main_iter 0 (new_driver ''h'' ''1''))"
proof -
  have st: "sys_step (new_driver ''h'' ''1'') (Iterate 0) = Some (main_iter 0 (new_driver ''h'' ''1''))"
    by (simp add: new_driver_def)
  from stage_monotone [OF st] st show ?thesis by simp
qed

text \<open>
  C19: \<open>close()\<close> is called by the loop exactly at the Connected-to-Closing transition:
  in every reachable state \<open>hasClose_\<close> holds exactly in \<open>kStageClosing\<close>, and at most one
  close request has reached the stream.
\<close>

theorem close_iff_closing:
  "sys_reachable d \<Longrightarrow>
     (has_close (sess d) \<longleftrightarrow> stage d = StageClosing) \<and> count_list (calls (sess d)) CallClose \<le> 1"
proof -
  assume r: "sys_reachable d"
  then have i: "drv_inv d" by (rule sys_reachable_inv)
  then have "session_inv (sess d)" by (simp add: drv_inv_def reachable_inv)
  with i show ?thesis by (auto simp: drv_inv_def session_inv_def close_once_def)
qed

theorem close_iff_closing_witness:
  "sys_reachable demo_driver \<and> (has_close (sess demo_driver) \<longleftrightarrow> stage demo_driver = StageClosing)
   \<and> count_list (calls (sess demo_driver)) CallClose \<le> 1"
  using close_iff_closing [OF demo_driver_reachable] demo_driver_reachable by simp

text \<open>
  C20: the loop calls \<open>run\<close> once, so the session never has more than one read
  outstanding.
\<close>

theorem run_once_single_read:
  "sys_reachable d \<Longrightarrow> runs (sess d) \<le> 1 \<and> count (pending (sess d)) OpRead \<le> 1"
proof -
  assume r: "sys_reachable d"
  then have i: "drv_inv d" by (rule sys_reachable_inv)
  then have "runs (sess d) \<le> 1" by (simp add: drv_inv_def)
  moreover have "chain_bound (sess d)"
    using i by (simp add: drv_inv_def reachable_inv [THEN session_inv_def [THEN iffD1]])
  ultimately show ?thesis by (simp add: chain_bound_def chain_ops_def)
qed

theorem run_once_single_read_witness:
  "sys_reachable demo_driver \<and> runs (sess demo_driver) \<le> 1 \<and> count (pending (sess demo_driver)) OpRead \<le> 1"
  using run_once_single_read [OF demo_driver_reachable] demo_driver_reachable by simp

text \<open>
  C21: burst size. An iteration in \<open>kStageConnected\<close> with at most 20 echoes received
  enqueues \<open>rand() % 5 + 1\<close> messages, numbered on from \<open>messageNo\<close>.
\<close>

theorem burst_size:
  "stage d = StageConnected \<Longrightarrow> recv_count (sess d) \<le> 20 \<Longrightarrow>
     message_no (main_iter k d) = message_no d + int k + 1 \<and> stage (main_iter k d) = StageConnected"
  by (simp add: main_iter_def del: send_burst.simps)

theorem burst_size_witness:
  "stage demo_driver = StageConnected \<and> recv_count (sess demo_driver) \<le> 20
   \<and> message_no (main_iter 4 demo_driver) = message_no demo_driver + 5"
proof -
  have a: "stage demo_driver = StageConnected" "recv_count (sess demo_driver) \<le> 20"
    by (simp_all add: demo_driver_def driver_eval)
  from burst_size [OF a, of 4] a show ?thesis by simp
qed

text \<open>
  C22: \<open>sendMessage\<close> is only called once the handshake has succeeded: a positive
  \<open>messageNo\<close> implies \<open>isConnected()\<close>.
\<close>

theorem send_after_connected:
  "sys_reachable d \<Longrightarrow> 0 < message_no d \<Longrightarrow> is_connected (sess d)"
  using sys_reachable_inv by (auto simp: drv_inv_def)

theorem send_after_connected_witness:
  "sys_reachable demo_driver \<and> 0 < message_no demo_driver \<and> is_connected (sess demo_driver)"
proof -
  have "0 < message_no demo_driver" by (simp add: demo_driver_def driver_eval)
  with send_after_connected [OF demo_driver_reachable] demo_driver_reachable show ?thesis by simp
qed

text \<open>
  C23: the program exits only after \<open>close()\<close>, in \<open>kStageClosing\<close>, with no operation
  outstanding.
\<close>

theorem quit_only_when_done:
  "sys_reachable d \<Longrightarrow> can_quit d \<Longrightarrow>
     stage d = StageClosing \<and> has_close (sess d) \<and> pending (sess d) = {#}"
  using sys_reachable_inv by (auto simp: drv_inv_def ioc_stopped_def)

theorem quit_only_when_done_witness:
  "sys_reachable quit_driver \<and> can_quit quit_driver \<and> stage quit_driver = StageClosing
   \<and> pending (sess quit_driver) = {#}"
  using quit_only_when_done [of quit_driver] quit_driver_facts by blast

text \<open>
  C24: liveness gap. Once the stream is lost while connected with at most 20 echoes
  received (as after the idle time-out the server's stall provokes), the read loop has
  stopped, no echo can arrive, and no continuation ever leaves \<open>kStageConnected\<close> or
  quits: the loop keeps queueing messages that are never written.
\<close>

theorem stream_lost_never_closes:
  "stuck d \<Longrightarrow> sys_run d es = Some d' \<Longrightarrow>
     stage d' = StageConnected \<and> \<not> can_quit d' \<and> \<not> has_close (sess d')"
proof -
  assume "stuck d" "sys_run d es = Some d'"
  then have "stuck d'" by (rule stuck_run)
  then show ?thesis by (simp add: stuck_def)
qed

theorem stream_lost_never_closes_witness:
  "sys_reachable lost_driver \<and> stuck lost_driver
   \<and> (\<exists>d'. sys_run lost_driver [Iterate 4, Poll StreamLost, Iterate 0] = Some d'
          \<and> stage d' = StageConnected \<and> \<not> can_quit d')"
proof -
  have s: "stuck lost_driver" by (simp add: lost_driver_def driver_eval stuck_def chain_ops_def)
  let ?d1 = "main_iter 4 lost_driver"
  let ?d2 = "?d1\<lparr>sess := (sess ?d1)\<lparr>ws_open := False\<rparr>\<rparr>"
  have s1: "sys_step lost_driver (Iterate 4) = Some ?d1" using s by (simp add: stuck_def)
  have t1: "stuck ?d1" using s s1 by (rule stuck_step)
  have s2: "sys_step ?d1 (Poll StreamLost) = Some ?d2" using t1 by (simp add: stuck_def)
  have t2: "stuck ?d2" using t1 s2 by (rule stuck_step)
  have nq: "\<not> can_quit ?d2" using t2 unfolding stuck_def by blast
  have s3: "sys_step ?d2 (Iterate 0) = Some (main_iter 0 ?d2)"
    by (simp only: sys_step.simps nq simp_thms) simp
  have r: "sys_run lost_driver [Iterate 4, Poll StreamLost, Iterate 0] = Some (main_iter 0 ?d2)"
    by (simp only: sys_run.simps s1 s2 s3 option.case)
  from stream_lost_never_closes [OF s r] have "stage (main_iter 0 ?d2) = StageConnected \<and> \<not> can_quit (main_iter 0 ?d2)"
    by blast
  with s r lost_driver_reachable show ?thesis by blast
qed

end
