(* ===== verification/Client_Main.thy ===== *)
theory Client_Main
  imports Driver
begin

text \<open>
  The rest of the client's \<open>main\<close> (src/beast_issue_client.cpp, lines 264--360): the
  argument check that precedes the loop, the burst loop seen as a fold of
  \<open>sendMessage\<close> over the message texts, what repeated iterations do once the
  session has lost its stream (the queue grows without bound and the C++ \<open>int\<close>
  \<open>messageNo\<close> is driven past \<open>INT_MAX\<close>), and the way out of the loop: after 21
  echoes an environment that drains the outstanding operations lets \<open>main\<close> exit.
\<close>

subsection \<open>Arguments\<close>

text \<open>
  \<open>argv\<close> with the program name first. Fewer than three entries print the usage text
  and return \<open>EXIT_FAILURE\<close> (\<open>None\<close>); otherwise the loop starts from the initial
  locals with \<open>host = argv[1]\<close> and \<open>port = argv[2]\<close>; further arguments are ignored.
\<close>

definition client_start :: "string list \<Rightarrow> driver option" where
  "client_start argv = (if length argv < 3 then None else Some (new_driver (argv ! 1) (argv ! 2)))"

text \<open>\<open>INT_MAX\<close> of the 32-bit \<open>int\<close> that holds \<open>messageNo\<close>.\<close>

definition int_max :: int where
  "int_max = 2 ^ 31 - 1"

text \<open>
  An environment that lets every outstanding operation finish: each pending operation
  completes with an error (a close request succeeds), so no handler starts another.
\<close>

definition drain_event :: "async_op \<Rightarrow> sess_event" where
  "drain_event op = (case op of OpResolve \<Rightarrow> ResolveDone EcOther | OpConnect \<Rightarrow> ConnectDone EcOther
     | OpHandshake \<Rightarrow> HandshakeDone EcOther | OpRead \<Rightarrow> ReadDone EcClosed [] | OpWrite m \<Rightarrow> WriteDone EcClosed m
     | OpClose \<Rightarrow> CloseDone EcOk)"

text \<open>The loop after 21 echoes have arrived and before its next iteration.\<close>

definition echoed_driver :: driver where
  "echoed_driver = the (sys_run conn_driver (replicate 21 (Poll (ReadDone EcOk ''echo''))))"

subsection \<open>Lemmas\<close>

lemma stuck_iterate:
  assumes "stuck d" "k < 5"
  shows "sys_step d (Iterate k) = Some (send_burst (Suc k) d)"
  using assms by (simp add: stuck_def main_iter_def)

lemma stuck_iterations:
  assumes "stuck d" "k < 5"
  shows "\<exists>d'. sys_run d (replicate n (Iterate k)) = Some d' \<and> stuck d'
     \<and> message_no d' = message_no d + int (n * Suc k)
     \<and> length (send_queue (sess d')) = length (send_queue (sess d)) + n * Suc k"
  using assms(1)
proof (induction n arbitrary: d)
  case 0
  then show ?case by simp
next
  case (Suc n)
  have st: "sys_step d (Iterate k) = Some (send_burst (Suc k) d)"
    using Suc.prems assms(2) by (rule stuck_iterate)
  have s1: "stuck (send_burst (Suc k) d)" using Suc.prems st by (rule stuck_step)
  have q: "length (send_queue (sess (send_burst (Suc k) d))) = length (send_queue (sess d)) + Suc k"
    using Suc.prems send_burst_closed [of d "Suc k"] by (simp add: stuck_def)
  from Suc.IH [OF s1] obtain d' where
    "sys_run (send_burst (Suc k) d) (replicate n (Iterate k)) = Some d'" "stuck d'"
    "message_no d' = message_no (send_burst (Suc k) d) + int (n * Suc k)"
    "length (send_queue (sess d')) = length (send_queue (sess (send_burst (Suc k) d))) + n * Suc k"
    by blast
  with st q show ?case by (simp add: algebra_simps)
qed

lemma upto_Suc_right:
  "[a + 1 .. a + int (Suc i)] = (a + 1) # [(a + 1) + 1 .. (a + 1) + int i]"
  by (simp add: upto.simps [of "a + 1"] add.assoc)

lemma stuck_message_no_nonneg: "sys_reachable d \<Longrightarrow> 0 \<le> message_no d"
  using sys_reachable_inv by (simp add: drv_inv_def)

lemma lost_driver_stuck: "stuck lost_driver"
  by (simp add: lost_driver_def driver_eval stuck_def chain_ops_def)

lemma drain_one:
  assumes "session_inv s" "\<not> ws_open s" "op \<in># pending s"
  shows "\<exists>t. session_step s (drain_event op) = Inr t \<and> pending t = pending s - {#op#} \<and> \<not> ws_open t"
proof (cases op)
  case (OpWrite m)
  with assms have q: "send_queue s \<noteq> []" by (blast dest: write_pending_front)
  with assms OpWrite show ?thesis
    by (auto simp: drain_event_def on_write_def do_send_def fail_def log_line_def Let_def split: list.splits)
qed (use assms in \<open>auto simp: drain_event_def complete_def handler_defs\<close>)

lemma drain_completion [simp]: "is_completion (drain_event op)"
  by (cases op) (simp_all add: drain_event_def)

lemma drain:
  "sys_reachable d \<Longrightarrow> \<not> can_quit d \<Longrightarrow> \<not> ws_open (sess d) \<Longrightarrow>
     \<exists>es d'. sys_run d es = Some d' \<and> sys_reachable d' \<and> pending (sess d') = {#}
       \<and> stage d' = stage d \<and> worker d' = worker d \<and> \<not> can_quit d'"
proof (induction "size (pending (sess d))" arbitrary: d)
  case 0
  then show ?case by (intro exI [of _ "[]"]) simp
next
  case (Suc n)
  then obtain op where op: "op \<in># pending (sess d)"
    by (metis multiset_nonemptyE size_empty nat.distinct(1))
  have "session_inv (sess d)"
    using sys_reachable_inv [OF Suc.prems(1)] by (simp add: drv_inv_def reachable_inv)
  from drain_one [OF this Suc.prems(3) op] obtain t where
    st: "session_step (sess d) (drain_event op) = Inr t" and p: "pending t = pending (sess d) - {#op#}"
    and w: "\<not> ws_open t" by blast
  let ?d1 = "d\<lparr>sess := t\<rparr>"
  have s1: "sys_step d (Poll (drain_event op)) = Some ?d1" using Suc.prems(2) st by simp
  have r1: "sys_reachable ?d1" using Suc.prems(1) s1 by (rule sys_reachable.step)
  have n: "n = size (pending (sess ?d1))" using Suc.hyps(2) op p by (simp add: size_Diff_submset)
  from Suc.hyps(1) [OF n r1] Suc.prems(2) w obtain es d' where
    "sys_run ?d1 es = Some d'" "sys_reachable d'" "pending (sess d') = {#}"
    "stage d' = stage d" "worker d' = worker d" "\<not> can_quit d'" by auto
  with s1 show ?case by (intro exI [of _ "Poll (drain_event op) # es"]) auto
qed

lemma closing_exit:
  assumes r: "sys_reachable d" and c: "stage d = StageClosing" and q: "\<not> can_quit d"
  shows "\<exists>es d'. sys_run d es = Some d' \<and> can_quit d'"
proof -
  let ?d1 = "d\<lparr>sess := (sess d)\<lparr>ws_open := False\<rparr>\<rparr>"
  have s1: "sys_step d (Poll StreamLost) = Some ?d1" using q by simp
  have r1: "sys_reachable ?d1" using r s1 by (rule sys_reachable.step)
  from drain [OF r1] q obtain es d2 where run: "sys_run ?d1 es = Some d2"
    and d2: "pending (sess d2) = {#}" "stage d2 = StageClosing" "worker d2 = worker d" "\<not> can_quit d2"
    using c by auto
  have "\<not> worker d" using sys_reachable_inv [OF r] c by (simp add: drv_inv_def)
  with d2 have s2: "sys_step d2 (Iterate 0) = Some (d2\<lparr>can_quit := True\<rparr>)"
    by (simp add: main_iter_def ioc_stopped_def)
  from s1 run s2 have "sys_run d (Poll StreamLost # es @ [Iterate 0]) = Some (d2\<lparr>can_quit := True\<rparr>)"
    by (simp add: sys_run_append)
  then show ?thesis by fastforce
qed

lemma echoed_driver_facts:
  "sys_reachable echoed_driver \<and> stage echoed_driver = StageConnected \<and> 20 < recv_count (sess echoed_driver)"
proof -
  note c = conn_driver_facts
  then obtain d' where r: "sys_run conn_driver (replicate 21 (Poll (ReadDone EcOk ''echo''))) = Some d'"
    and f: "stage d' = StageConnected" "recv_count (sess d') = 21"
    using read_echoes [of conn_driver 21 "''echo''"] by auto
  from r c have "sys_reachable d'" by (blast intro: sys_run_reachable)
  with r f show ?thesis by (simp add: echoed_driver_def)
qed

subsection \<open>Properties of the loop after the stream is lost\<close>

text \<open>
  C25: the burst loop is a fold. \<open>rand() % 5 + 1\<close> passes of the \<open>for\<close> loop, each
  incrementing \<open>messageNo\<close> and sending its text, are \<open>sendMessage\<close> folded over the
  texts \<open>userMsg:<messageNo + 1>\<close> to \<open>userMsg:<messageNo + i>\<close>.
\<close>

theorem send_burst_fold:
  "send_burst i d = d\<lparr>message_no := message_no d + int i,
     sess := fold send_message (map user_msg [message_no d + 1 .. message_no d + int i]) (sess d)\<rparr>"
proof (induction i arbitrary: d)
  case 0
  then show ?case by simp
next
  case (Suc i)
  let ?n = "message_no d + 1"
  have "send_burst (Suc i) d =
    send_burst i (d\<lparr>message_no := ?n, sess := send_message (user_msg ?n) (sess d)\<rparr>)" by simp
  also have "\<dots> = d\<lparr>message_no := ?n + int i,
     sess := fold send_message (map user_msg [?n + 1 .. ?n + int i]) (send_message (user_msg ?n) (sess d))\<rparr>"
    by (simp add: Suc.IH)
  also have "\<dots> = d\<lparr>message_no := message_no d + int (Suc i),
     sess := fold send_message (map user_msg [message_no d + 1 .. message_no d + int (Suc i)]) (sess d)\<rparr>"
  proof -
    have u: "map user_msg [message_no d + 1 .. message_no d + int (Suc i)]
      = user_msg ?n # map user_msg [?n + 1 .. ?n + int i]"
      by (simp only: upto_Suc_right list.map)
    show ?thesis by (simp only: u fold_Cons o_apply) simp
  qed
  finally show ?case .
qed

text \<open>
  C26: unbounded queue. Once the stream is lost in \<open>kStageConnected\<close> with at most 20
  echoes, every further iteration appends its whole burst to \<open>sendMessageQueue_\<close>,
  which nothing drains: after \<open>n\<close> iterations with \<open>rand() % 5 = k\<close> the loop is still
  connected and the queue is \<open>n * (k + 1)\<close> entries longer.
\<close>

theorem stuck_queue_grows:
  "stuck d \<Longrightarrow> k < 5 \<Longrightarrow>
     \<exists>d'. sys_run d (replicate n (Iterate k)) = Some d' \<and> stage d' = StageConnected
       \<and> length (send_queue (sess d')) = length (send_queue (sess d)) + n * Suc k"
proof -
  assume s: "stuck d" and k: "k < 5"
  from stuck_iterations [OF s k, of n] obtain d' where
    "sys_run d (replicate n (Iterate k)) = Some d'" "stuck d'"
    "length (send_queue (sess d')) = length (send_queue (sess d)) + n * Suc k" by blast
  then show ?thesis by (auto simp: stuck_def)
qed

theorem stuck_queue_grows_witness:
  "stuck lost_driver \<and> (\<exists>d'. sys_run lost_driver (replicate 3 (Iterate 4)) = Some d'
     \<and> stage d' = StageConnected
     \<and> length (send_queue (sess d')) = length (send_queue (sess lost_driver)) + 15)"
  using stuck_queue_grows [OF lost_driver_stuck, of 4 3] lost_driver_stuck by simp

text \<open>
  C27: integer overflow. From such a state the loop keeps incrementing the 32-bit
  \<open>int messageNo\<close>: \<open>2^31\<close> further iterations take it past \<open>INT_MAX\<close>, so
  \<open>++messageNo\<close> overflows (undefined behaviour in C++) while the process still runs.
\<close>

theorem message_no_overflow:
  "sys_reachable d \<Longrightarrow> stuck d \<Longrightarrow>
     \<exists>d'. sys_run d (replicate (2 ^ 31) (Iterate 0)) = Some d' \<and> int_max < message_no d'"
proof -
  assume r: "sys_reachable d" and s: "stuck d"
  from stuck_iterations [OF s, of 0 "2 ^ 31"] obtain d' where
    run: "sys_run d (replicate (2 ^ 31) (Iterate 0)) = Some d'"
    and m: "message_no d' = message_no d + int (2 ^ 31 * Suc 0)" by auto
  have "0 \<le> message_no d" using r by (rule stuck_message_no_nonneg)
  with m have "int_max < message_no d'" by (simp add: int_max_def)
  with run show ?thesis by blast
qed

theorem message_no_overflow_witness:
  "sys_reachable lost_driver \<and> stuck lost_driver
   \<and> (\<exists>d'. sys_run lost_driver (replicate (2 ^ 31) (Iterate 0)) = Some d' \<and> int_max < message_no d')"
  using message_no_overflow [OF lost_driver_reachable lost_driver_stuck]
    lost_driver_reachable lost_driver_stuck by blast

subsection \<open>Exit\<close>

text \<open>
  C32: the way out. From every reachable state in which the loop is connected and has
  received more than 20 echoes, some behaviour of the environment (the stream dropping
  and the outstanding operations completing) lets \<open>main\<close> set \<open>canQuit\<close>: the next
  iteration calls \<open>close()\<close> and enters \<open>kStageClosing\<close>, and once the context has no
  work left the loop ends. Together with C26 this locates the only way to exit.
\<close>

theorem exit_after_21_echoes:
  "sys_reachable d \<Longrightarrow> stage d = StageConnected \<Longrightarrow> 20 < recv_count (sess d) \<Longrightarrow>
     \<exists>es d'. sys_run d es = Some d' \<and> can_quit d'"
proof -
  assume r: "sys_reachable d" and c: "stage d = StageConnected" and n: "20 < recv_count (sess d)"
  have q: "\<not> can_quit d" using sys_reachable_inv [OF r] c by (simp add: drv_inv_def)
  let ?d1 = "d\<lparr>sess := close (sess d), stage := StageClosing, worker := False\<rparr>"
  have s1: "sys_step d (Iterate 0) = Some ?d1" using q c n by (simp add: main_iter_def)
  have r1: "sys_reachable ?d1" using r s1 by (rule sys_reachable.step)
  from closing_exit [OF r1] q obtain es d' where "sys_run ?d1 es = Some d'" "can_quit d'" by auto
  with s1 have "sys_run d (Iterate 0 # es) = Some d' \<and> can_quit d'" by simp
  then show ?thesis by blast
qed

theorem exit_after_21_echoes_witness:
  "sys_reachable echoed_driver \<and> stage echoed_driver = StageConnected \<and> 20 < recv_count (sess echoed_driver)
   \<and> (\<exists>es d'. sys_run echoed_driver es = Some d' \<and> can_quit d')"
  using exit_after_21_echoes echoed_driver_facts by blast

end
