(* ===== verification/Server.thy ===== *)
theory Server
  imports Prelude
begin

text \<open>
  The echo server's connection handler \<open>do_session\<close> (src/beast_issue_server.cpp,
  lines 22--87). It runs on its own thread and blocks, so its behaviour is a function of
  what the peer does: the script of read results (a frame, or the error \<open>ws.read\<close>
  throws) and of write results. The handler's locals are the record \<open>conn\<close>; the
  function-local \<open>static bool hasSleep\<close> is process-wide state, passed from one
  connection to the next. An exception ends the loop; \<open>websocket::error::closed\<close> is
  not reported, any other code is.
\<close>

subsection \<open>State\<close>

text \<open>A WebSocket message with its opcode: \<open>True\<close> for text, \<open>False\<close> for binary.\<close>

datatype frame = Frame (frame_text: bool) (frame_data: payload)

text \<open>
  One iteration's worth of the peer's behaviour: a message read whose echo completes
  with the given code, or a read that fails with the given code.
\<close>

datatype srv_input = Incoming frame err_code | ReadFails err_code

text \<open>What the handler does that the outside sees: a write, the stall, a report.\<close>

datatype srv_out = Echo frame | Stall | Report err_code

text \<open>
  \<open>count\<close> is the loop's \<open>int count\<close>; \<open>wr_text\<close> the stream's outgoing opcode
  (\<open>ws.text\<close>), \<open>got_text\<close> the opcode of the last message read
  (\<open>ws.got_text()\<close>), which Beast initialises to text; \<open>has_sleep\<close> the static flag.
\<close>

record conn =
  count :: int
  wr_text :: bool
  got_text :: bool

record srv_state =
  sconn :: conn
  has_sleep :: bool
  outs :: "srv_out list"

definition new_conn :: conn where
  "new_conn = \<lparr>count = 0, wr_text = True, got_text = True\<rparr>"

subsection \<open>Operations\<close>

text \<open>The \<open>catch\<close> clauses: a closed stream ends the handler silently.\<close>

definition report :: "err_code \<Rightarrow> srv_state \<Rightarrow> srv_state" where
  "report ec st = (if ec = EcClosed then st else st\<lparr>outs := outs st @ [Report ec]\<rparr>)"

text \<open>\<open>static bool hasSleep; ++count; if (count > 10) if (!hasSleep) { ... sleep(12); }\<close>.\<close>

definition stall_check :: "srv_state \<Rightarrow> srv_state" where
  "stall_check st =
     (let c = sconn st; c1 = c\<lparr>count := count c + 1\<rparr>
      in if count c1 > 10 \<and> \<not> has_sleep st
         then st\<lparr>sconn := c1\<lparr>count := 0\<rparr>, has_sleep := True, outs := outs st @ [Stall]\<rparr>
         else st\<lparr>sconn := c1\<rparr>)"

text \<open>
  The first half of a pass of \<open>for(;;)\<close>: \<open>ws.text(ws.got_text())\<close> before the
  read, so the echo goes out with the opcode of the message read in the previous pass;
  then \<open>ws.read\<close> of \<open>f\<close> and \<open>ws.write\<close> of the same buffer.
\<close>

definition read_echo :: "frame \<Rightarrow> srv_state \<Rightarrow> srv_state" where
  "read_echo f st =
     (let c = sconn st
      in st\<lparr>sconn := c\<lparr>wr_text := got_text c, got_text := frame_text f\<rparr>,
            outs := outs st @ [Echo (Frame (got_text c) (frame_data f))]\<rparr>)"

text \<open>The loop: a failed write or read throws out of it; otherwise the stall check.\<close>

fun srv_loop :: "srv_state \<Rightarrow> srv_input list \<Rightarrow> srv_state \<times> bool" where
  "srv_loop st [] = (st, False)"
| "srv_loop st (ReadFails ec # _) =
     (report ec (st\<lparr>sconn := (sconn st)\<lparr>wr_text := got_text (sconn st)\<rparr>\<rparr>), True)"
| "srv_loop st (Incoming f ec # rest) =
     (if ec \<noteq> EcOk then (report ec (read_echo f st), True)
      else srv_loop (stall_check (read_echo f st)) rest)"

text \<open>
  \<open>do_session\<close>: the handshake (\<open>ws.accept()\<close>, which throws on failure), then the
  loop from fresh locals. The result's flag says whether the handler has returned;
  \<open>False\<close> means it is blocked in \<open>ws.read\<close> waiting for more of the script.
\<close>

definition do_session :: "err_code \<Rightarrow> srv_input list \<Rightarrow> bool \<Rightarrow> srv_state \<times> bool" where
  "do_session acc script hs =
     (let st0 = \<lparr>sconn = new_conn, has_sleep = hs, outs = []\<rparr>
      in if acc \<noteq> EcOk then (report acc st0, True) else srv_loop st0 script)"

text \<open>
  Connections of one process whose handlers do not overlap in time: each detached
  thread of the accept loop (lines 114--126) runs to its end before the next
  connection's thread starts. The static flag carries over, the locals do not; each
  connection's outputs are kept separately. Overlapping handlers are the subject of
  theory \<open>Server_Threads\<close>, where the test and the set of the flag interleave.
\<close>

fun srv_process :: "bool \<Rightarrow> (err_code \<times> srv_input list) list \<Rightarrow> srv_out list list \<times> bool" where
  "srv_process hs [] = ([], hs)"
| "srv_process hs ((acc, script) # cs) =
     (let (st, _) = do_session acc script hs;
          (rest, hs') = srv_process (has_sleep st) cs
      in (outs st # rest, hs'))"

subsection \<open>Observations\<close>

text \<open>
  The frames the handler wrote, the frames it read before the loop ended, and the
  echoes the spec's contract would give when each echo carries the previous message's
  opcode (\<open>g\<close> is the opcode before the first message).
\<close>

fun echoes :: "srv_out list \<Rightarrow> frame list" where
  "echoes [] = []"
| "echoes (Echo f # os) = f # echoes os"
| "echoes (_ # os) = echoes os"

fun read_frames :: "srv_input list \<Rightarrow> frame list" where
  "read_frames [] = []"
| "read_frames (ReadFails _ # _) = []"
| "read_frames (Incoming f ec # rest) = f # (if ec \<noteq> EcOk then [] else read_frames rest)"

fun echo_frames :: "bool \<Rightarrow> frame list \<Rightarrow> frame list" where
  "echo_frames g [] = []"
| "echo_frames g (f # fs) = Frame g (frame_data f) # echo_frames (frame_text f) fs"

text \<open>A peer whose every message is read and echoed without error.\<close>

abbreviation ok_inputs :: "frame list \<Rightarrow> srv_input list" where
  "ok_inputs fs \<equiv> map (\<lambda>f. Incoming f EcOk) fs"

subsection \<open>Lemmas\<close>

lemma echoes_append [simp]: "echoes (xs @ ys) = echoes xs @ echoes ys"
  by (induction xs rule: echoes.induct) auto

lemma report_simps [simp]:
  "sconn (report ec st) = sconn st" "has_sleep (report ec st) = has_sleep st"
  "echoes (outs (report ec st)) = echoes (outs st)"
  "count_list (outs (report ec st)) Stall = count_list (outs st) Stall"
  by (simp_all add: report_def)

lemma read_echo_simps [simp]:
  "got_text (sconn (read_echo f st)) = frame_text f"
  "has_sleep (read_echo f st) = has_sleep st"
  "echoes (outs (read_echo f st)) = echoes (outs st) @ [Frame (got_text (sconn st)) (frame_data f)]"
  "count_list (outs (read_echo f st)) Stall = count_list (outs st) Stall"
  by (simp_all add: read_echo_def Let_def)

lemma stall_check_simps [simp]:
  "got_text (sconn (stall_check st)) = got_text (sconn st)"
  "echoes (outs (stall_check st)) = echoes (outs st)"
  "count_list (outs (stall_check st)) Stall =
     count_list (outs st) Stall + (if has_sleep (stall_check st) \<and> \<not> has_sleep st then 1 else 0)"
  by (auto simp: stall_check_def Let_def)

lemma stall_check_sleep: "has_sleep st \<Longrightarrow> has_sleep (stall_check st)"
  by (simp add: stall_check_def Let_def)

lemma srv_loop_echoes:
  "echoes (outs (fst (srv_loop st sc))) = echoes (outs st) @ echo_frames (got_text (sconn st)) (read_frames sc)"
  by (induction st sc rule: srv_loop.induct) simp_all

lemma srv_loop_sleep_mono:
  "has_sleep st \<Longrightarrow> has_sleep (fst (srv_loop st sc))"
  by (induction st sc rule: srv_loop.induct) (simp_all add: stall_check_sleep)

lemma srv_loop_stalls:
  "count_list (outs (fst (srv_loop st sc))) Stall =
     count_list (outs st) Stall + (if has_sleep (fst (srv_loop st sc)) \<and> \<not> has_sleep st then 1 else 0)"
proof (induction st sc rule: srv_loop.induct)
  case (3 st f ec rest)
  let ?u = "stall_check (read_echo f st)"
  let ?r = "fst (srv_loop ?u rest)"
  show ?case
  proof (cases "ec = EcOk")
    case True
    then have ih: "count_list (outs ?r) Stall =
        count_list (outs ?u) Stall + (if has_sleep ?r \<and> \<not> has_sleep ?u then 1 else 0)"
      using "3.IH" by simp
    have cu: "count_list (outs ?u) Stall =
        count_list (outs st) Stall + (if has_sleep ?u \<and> \<not> has_sleep st then 1 else 0)"
      by simp
    have m1: "has_sleep ?u \<Longrightarrow> has_sleep ?r" by (rule srv_loop_sleep_mono)
    have m2: "has_sleep st \<Longrightarrow> has_sleep ?u" using stall_check_sleep [of "read_echo f st"] by simp
    have "srv_loop st (Incoming f ec # rest) = srv_loop ?u rest" using True by simp
    with ih cu m1 m2 show ?thesis by (cases "has_sleep st"; cases "has_sleep ?u") simp_all
  qed simp
qed simp_all

lemma map_data_echo_frames [simp]: "map frame_data (echo_frames g fs) = map frame_data fs"
  by (induction fs arbitrary: g) auto

lemma map_text_echo_frames:
  "map frame_text (echo_frames g fs) = take (length fs) (g # map frame_text fs)"
  by (induction fs arbitrary: g) auto


lemma do_session_stalls:
  "count_list (outs (fst (do_session acc sc hs))) Stall =
     (if has_sleep (fst (do_session acc sc hs)) \<and> \<not> hs then 1 else 0)"
  using srv_loop_stalls [of "\<lparr>sconn = new_conn, has_sleep = hs, outs = []\<rparr>" sc]
  by (cases "acc = EcOk") (simp_all add: do_session_def report_def Let_def)

lemma do_session_sleep_mono: "hs \<Longrightarrow> has_sleep (fst (do_session acc sc hs))"
  using srv_loop_sleep_mono [of "\<lparr>sconn = new_conn, has_sleep = hs, outs = []\<rparr>" sc]
  by (simp add: do_session_def Let_def)

lemma srv_process_stalls:
  "count_list (concat (fst (srv_process hs cs))) Stall =
     (if snd (srv_process hs cs) \<and> \<not> hs then 1 else 0) \<and> (hs \<longrightarrow> snd (srv_process hs cs))"
proof (induction cs arbitrary: hs)
  case Nil
  then show ?case by simp
next
  case (Cons c cs)
  obtain acc sc where c: "c = (acc, sc)" by (cases c)
  let ?st = "fst (do_session acc sc hs)"
  have ih: "count_list (concat (fst (srv_process (has_sleep ?st) cs))) Stall =
      (if snd (srv_process (has_sleep ?st) cs) \<and> \<not> has_sleep ?st then 1 else 0)
      \<and> (has_sleep ?st \<longrightarrow> snd (srv_process (has_sleep ?st) cs))"
    by (rule Cons.IH)
  have eq: "srv_process hs (c # cs) = (outs ?st # fst (srv_process (has_sleep ?st) cs),
                                       snd (srv_process (has_sleep ?st) cs))"
    by (simp add: c split: prod.splits)
  show ?case
    using ih do_session_stalls [of acc sc hs] do_session_sleep_mono [of hs acc sc]
    by (simp only: eq fst_conv snd_conv concat.simps count_list_append) (cases hs; auto)
qed

lemma read_echo_more [simp]:
  "sconn (read_echo f st) = (sconn st)\<lparr>wr_text := got_text (sconn st), got_text := frame_text f\<rparr>"
  "outs (read_echo f st) = outs st @ [Echo (Frame (got_text (sconn st)) (frame_data f))]"
  by (simp_all add: read_echo_def Let_def)

lemma srv_loop_slept:
  "has_sleep st \<Longrightarrow>
     outs (fst (srv_loop st (ok_inputs fs))) = outs st @ map Echo (echo_frames (got_text (sconn st)) fs)"
proof (induction fs arbitrary: st)
  case Nil
  then show ?case by simp
next
  case (Cons f fs)
  let ?u = "stall_check (read_echo f st)"
  have hu: "has_sleep ?u" using Cons.prems stall_check_sleep [of "read_echo f st"] by simp
  have "outs ?u = outs st @ [Echo (Frame (got_text (sconn st)) (frame_data f))]"
    using Cons.prems by (simp add: stall_check_def Let_def)
  with Cons.IH [OF hu] show ?case by simp
qed

lemma srv_loop_stall_position:
  "\<not> has_sleep st \<Longrightarrow> 0 \<le> count (sconn st) \<Longrightarrow> count (sconn st) \<le> 10 \<Longrightarrow>
   outs (fst (srv_loop st (ok_inputs fs))) =
     outs st @ (let es = map Echo (echo_frames (got_text (sconn st)) fs); k = nat (11 - count (sconn st))
                in if length fs < k then es else take k es @ Stall # drop k es)"
proof (induction fs arbitrary: st)
  case Nil
  then show ?case by simp
next
  case (Cons f fs)
  let ?u = "stall_check (read_echo f st)"
  let ?c = "count (sconn st)"
  show ?case
  proof (cases "?c = 10")
    case True
    then have u: "has_sleep ?u" "outs ?u = outs st @ [Echo (Frame (got_text (sconn st)) (frame_data f)), Stall]"
      "got_text (sconn ?u) = frame_text f"
      using Cons.prems by (simp_all add: stall_check_def Let_def)
    have "outs (fst (srv_loop ?u (ok_inputs fs))) = outs ?u @ map Echo (echo_frames (frame_text f) fs)"
      using srv_loop_slept [OF u(1)] u(3) by simp
    with u True show ?thesis by (simp add: Let_def)
  next
    case False
    then have u: "\<not> has_sleep ?u" "count (sconn ?u) = ?c + 1"
      "outs ?u = outs st @ [Echo (Frame (got_text (sconn st)) (frame_data f))]"
      "got_text (sconn ?u) = frame_text f"
      using Cons.prems by (simp_all add: stall_check_def Let_def)
    have k: "nat (11 - ?c) = Suc (nat (11 - (?c + 1)))" using Cons.prems False by simp
    have "srv_loop st (ok_inputs (f # fs)) = srv_loop ?u (ok_inputs fs)" by simp
    with Cons.IH [of ?u] u Cons.prems False show ?thesis
      by (simp only: k) (simp add: Let_def)
  qed
qed
lemma srv_loop_count_slept:
  "has_sleep st \<Longrightarrow>
     count (sconn (fst (srv_loop st (ok_inputs fs)))) = count (sconn st) + int (length fs)
     \<and> \<not> snd (srv_loop st (ok_inputs fs))"
proof (induction fs arbitrary: st)
  case Nil
  then show ?case by simp
next
  case (Cons f fs)
  have "has_sleep (stall_check (read_echo f st))" using Cons.prems by (simp add: stall_check_sleep)
  moreover have "count (sconn (stall_check (read_echo f st))) = count (sconn st) + 1"
    using Cons.prems by (simp add: stall_check_def read_echo_def Let_def)
  ultimately show ?case using Cons.IH by simp
qed

subsection \<open>Properties of the connection handler\<close>

text \<open>
  C11: echo payloads. Whatever the peer sends, the payloads the handler writes are
  exactly the payloads of the messages it read, in order, until the loop ends.
\<close>

theorem echo_payload_identical:
  "map frame_data (echoes (outs (fst (do_session EcOk sc hs)))) = map frame_data (read_frames sc)"
  using srv_loop_echoes [of "\<lparr>sconn = new_conn, has_sleep = hs, outs = []\<rparr>" sc]
  by (simp add: do_session_def)

text \<open>
  C12: echo opcodes. Because \<open>ws.text(ws.got_text())\<close> runs before \<open>ws.read\<close>, the
  echo of each message carries the opcode of the message before it (text for the first):
  the spec's ``same text/binary mode as received'' holds only when consecutive
  messages share their opcode.
\<close>

theorem echo_mode_previous:
  "map frame_text (echoes (outs (fst (do_session EcOk sc hs)))) =
     take (length (read_frames sc)) (True # map frame_text (read_frames sc))"
  using srv_loop_echoes [of "\<lparr>sconn = new_conn, has_sleep = hs, outs = []\<rparr>" sc]
  by (simp add: do_session_def new_conn_def map_text_echo_frames)

text \<open>
  C13: once a connection has stalled, no later connection of the process stalls, however
  many messages it receives: the stall is global-once, not per connection.
\<close>

theorem no_stall_after_first:
  "count_list (concat (fst (srv_process True cs))) Stall = 0"
  using srv_process_stalls [of True cs] by simp

text \<open>
  C14: a read that throws ends the handler; \<open>websocket::error::closed\<close> (the peer's
  graceful close) is not reported, any other code is reported once.
\<close>

theorem read_failure_ends_handler:
  "snd (srv_loop st (ReadFails ec # rest)) \<and>
   outs (fst (srv_loop st (ReadFails ec # rest))) = outs st @ (if ec = EcClosed then [] else [Report ec])"
  by (simp add: report_def)

text \<open>
  C15: where the stall happens. On the first connection of the process, with every
  message read and echoed, the handler stalls exactly once, right after the echo of the
  eleventh message (\<open>count > 10\<close>), and not at all if fewer than eleven arrive.
\<close>

theorem stall_after_eleventh:
  "outs (fst (do_session EcOk (ok_inputs fs) False)) =
     (let es = map Echo (echo_frames True fs)
      in if length fs < 11 then es else take 11 es @ Stall # drop 11 es)"
  using srv_loop_stall_position [of "\<lparr>sconn = new_conn, has_sleep = False, outs = []\<rparr>" fs]
  by (simp add: do_session_def new_conn_def)

text \<open>
  C36: the counter is never reset after the stall. Once the process has stalled, a
  connection whose messages are all echoed counts every one of them in
  \<open>int count\<close> and keeps reading; \<open>count = 0\<close> is only executed in the stall branch.
  So \<open>2^31\<close> messages on such a connection take \<open>++count\<close> past \<open>INT_MAX\<close>, undefined
  behaviour in C++, although the counter no longer serves any purpose.
\<close>

theorem count_unbounded_after_stall:
  "count (sconn (fst (do_session EcOk (ok_inputs fs) True))) = int (length fs)
   \<and> \<not> snd (do_session EcOk (ok_inputs fs) True)
   \<and> 2 ^ 31 - 1 < count (sconn (fst (do_session EcOk (ok_inputs (replicate (2 ^ 31) f)) True)))"
proof -
  have "\<And>gs. count (sconn (fst (do_session EcOk (ok_inputs gs) True))) = int (length gs)
      \<and> \<not> snd (do_session EcOk (ok_inputs gs) True)"
    using srv_loop_count_slept [of "\<lparr>sconn = new_conn, has_sleep = True, outs = []\<rparr>"]
    by (simp add: do_session_def new_conn_def)
  from this [of fs] this [of "replicate (2 ^ 31) f"] show ?thesis by simp
qed

end
