(* ===== verification/Server_Main.thy ===== *)
theory Server_Main
  imports Server Messages "HOL-Library.Word"
begin

text \<open>
  The server's \<open>main\<close> (src/beast_issue_server.cpp, lines 93--133) up to the accept
  loop: the argument check (exactly two arguments) and the conversion of the port
  text, \<open>static_cast<unsigned short>(std::atoi(argv[2]))\<close>. \<open>atoi\<close> is the C library
  function: it skips leading white space, reads an optional sign and the longest run
  of decimal digits, and yields 0 when there is none; the cast to the 16-bit
  \<open>unsigned short\<close> is reduction modulo \<open>2^16\<close>, the \<open>16 word\<close> of \<open>word_of_int\<close>.
  \<open>make_address\<close>, the bind of the acceptor and the accept loop are the
  environment: the result names the address text and port the acceptor is given.
  \<open>atoi\<close> is computed on unbounded integers; it is the C function only for texts
  whose value fits in an \<open>int\<close> (beyond that \<open>std::atoi\<close> is undefined), and the
  properties below are stated for such texts.
\<close>

subsection \<open>atoi\<close>

definition c_isspace :: "char \<Rightarrow> bool" where
  "c_isspace c \<longleftrightarrow> of_char c = (32 :: nat) \<or> (9 \<le> (of_char c :: nat) \<and> (of_char c :: nat) \<le> 13)"

fun atoi_digits :: "int \<Rightarrow> string \<Rightarrow> int" where
  "atoi_digits a [] = a"
| "atoi_digits a (c # cs) = (case digit_val c of None \<Rightarrow> a | Some d \<Rightarrow> atoi_digits (10 * a + int d) cs)"

definition atoi :: "string \<Rightarrow> int" where
  "atoi s =
     (let t = dropWhile c_isspace s in
      if t \<noteq> [] \<and> hd t = CHR ''-'' then - atoi_digits 0 (tl t)
      else if t \<noteq> [] \<and> hd t = CHR ''+'' then atoi_digits 0 (tl t)
      else atoi_digits 0 t)"

subsection \<open>The port and the argument check\<close>

definition port_of :: "string \<Rightarrow> 16 word" where
  "port_of s = word_of_int (atoi s)"

datatype srv_start = SrvUsage | SrvListen string "16 word"

definition srv_main :: "string list \<Rightarrow> srv_start" where
  "srv_main argv = (if length argv \<noteq> 3 then SrvUsage else SrvListen (argv ! 1) (port_of (argv ! 2)))"

subsection \<open>Lemmas\<close>

lemma atoi_digits_acc: "digits_acc a cs = Some v \<Longrightarrow> atoi_digits (int a) cs = int v"
  by (induction a cs rule: digits_acc.induct) (auto split: option.splits)

lemma atoi_digits_nat_str [simp]: "atoi_digits 0 (nat_str n) = int n"
  using atoi_digits_acc [OF digits_acc_nat_str [of n]] by simp

lemma nat_str_hd: "\<exists>d < 10. hd (nat_str n) = digit_char d"
proof (induction n rule: nat_str.induct)
  case (1 n)
  then show ?case by (subst nat_str.simps) (auto simp: hd_append)
qed

lemma of_char_digit_char: "d < 10 \<Longrightarrow> (of_char (digit_char d) :: nat) = 48 + d"
  by (simp add: digit_char_def)

lemma digit_char_classes [simp]:
  assumes "d < 10"
  shows "\<not> c_isspace (digit_char d) \<and> digit_char d \<noteq> CHR ''+''"
proof -
  have "(of_char (digit_char d) :: nat) = 48 + d" using assms by (rule of_char_digit_char)
  moreover have "(of_char CHR ''+'' :: nat) = 43" by simp
  ultimately show ?thesis using assms by (auto simp: c_isspace_def dest: arg_cong [of _ _ "of_char :: char \<Rightarrow> nat"])
qed

lemma nat_str_first:
  "\<not> c_isspace (hd (nat_str n)) \<and> hd (nat_str n) \<noteq> CHR ''+'' \<and> hd (nat_str n) \<noteq> CHR ''-''"
proof -
  obtain d where "d < 10" "hd (nat_str n) = digit_char d" using nat_str_hd by blast
  then show ?thesis using digit_char_classes [of d] digit_char_not_minus [of d] by simp
qed

lemma dropWhile_nat_str [simp]: "dropWhile c_isspace (nat_str n) = nat_str n"
  using nat_str_first [of n] nat_str_nonempty [of n] by (cases "nat_str n") auto

lemma minus_not_space [simp]: "\<not> c_isspace CHR ''-''"
  by (simp add: c_isspace_def)

lemma unat_port_of: "unat (port_of s) = nat (atoi s mod 65536)"
  by (simp add: port_of_def unat_eq_nat_uint uint_word_of_int_eq take_bit_eq_mod)

lemma atoi_int_str: "atoi (int_str n) = n"
proof (cases "n < 0")
  case True
  then show ?thesis by (simp add: atoi_def int_str_def)
next
  case False
  then show ?thesis using nat_str_first [of "nat n"] by (simp add: atoi_def int_str_def)
qed

lemma atoi_no_digit:
  "s \<noteq> [] \<Longrightarrow> \<not> c_isspace (hd s) \<Longrightarrow> hd s \<noteq> CHR ''-'' \<Longrightarrow> hd s \<noteq> CHR ''+''
     \<Longrightarrow> digit_val (hd s) = None \<Longrightarrow> atoi s = 0"
  by (cases s) (simp_all add: atoi_def)

subsection \<open>Properties of the port argument\<close>

text \<open>
  C28: the port text. For a port written in decimal in the range of
  \<open>unsigned short\<close>, \<open>static_cast<unsigned short>(std::atoi(argv[2]))\<close> is that port;
  for other texts whose value still fits in an \<open>int\<close> (where \<open>std::atoi\<close> is
  defined) the cast wraps around: texts that differ by a multiple of 65536 select the
  same port (\<open>70000\<close> listens on 4464, \<open>-1\<close> on 65535). Texts beyond the range of
  \<open>int\<close> are excluded: there \<open>std::atoi\<close> is undefined.
\<close>

theorem port_roundtrip_wrap:
  "0 \<le> n \<Longrightarrow> n < 65536 \<Longrightarrow> - (2 ^ 31) \<le> n + 65536 * k \<Longrightarrow> n + 65536 * k \<le> 2 ^ 31 - 1 \<Longrightarrow>
     unat (port_of (int_str n)) = nat n \<and> port_of (int_str (n + 65536 * k)) = port_of (int_str n)"
proof -
  assume n: "0 \<le> n" "n < 65536"
  have "unat (port_of (int_str n)) = nat n" using n by (simp add: unat_port_of atoi_int_str)
  moreover have "port_of (int_str (n + 65536 * k)) = port_of (int_str n)"
    by (simp only: port_of_def atoi_int_str word_of_int_eq_iff take_bit_eq_mod) simp
  ultimately show ?thesis by blast
qed

theorem port_roundtrip_wrap_witness:
  "0 \<le> (4464 :: int) \<and> (4464 :: int) < 65536
   \<and> - (2 ^ 31) \<le> (4464 :: int) + 65536 * 1 \<and> (4464 :: int) + 65536 * 1 \<le> 2 ^ 31 - 1
   \<and> unat (port_of (int_str 4464)) = 4464
   \<and> port_of (int_str (4464 + 65536 * 1)) = port_of (int_str 4464)"
  using port_roundtrip_wrap [of 4464 1] by simp

text \<open>
  C29: a malformed port is not an error. When \<open>argv[2]\<close> does not start with white
  space, a sign or a digit, \<open>atoi\<close> yields 0 and the server goes on to bind port 0,
  an ephemeral port chosen by the system, instead of printing the usage text.
\<close>

theorem malformed_port_zero:
  "s \<noteq> [] \<Longrightarrow> \<not> c_isspace (hd s) \<Longrightarrow> hd s \<noteq> CHR ''-'' \<Longrightarrow> hd s \<noteq> CHR ''+''
     \<Longrightarrow> digit_val (hd s) = None \<Longrightarrow> srv_main [a0, a, s] = SrvListen a 0"
  by (simp add: srv_main_def port_of_def atoi_no_digit)

theorem malformed_port_zero_witness:
  "''http'' \<noteq> [] \<and> \<not> c_isspace (hd ''http'') \<and> hd ''http'' \<noteq> CHR ''-'' \<and> hd ''http'' \<noteq> CHR ''+''
   \<and> digit_val (hd ''http'') = None
   \<and> srv_main [''websocket-server-sync'', ''0.0.0.0'', ''http''] = SrvListen ''0.0.0.0'' 0"
proof -
  have h: "\<not> c_isspace (hd ''http'')" "digit_val (hd ''http'') = None"
    by (simp_all add: c_isspace_def digit_val_def)
  from malformed_port_zero [of "''http''" "''websocket-server-sync''" "''0.0.0.0''"] h
  show ?thesis by simp
qed

end
