(* ===== verification/Server_Threads.thy ===== *)
theory Server_Threads
  imports Prelude
begin

text \<open>
  The server's threads. \<open>main\<close> (src/beast_issue_server.cpp, lines 114--126) detaches a
  thread per accepted connection, and every thread runs the loop of \<open>do_session\<close>
  (lines 46--75) on its own \<open>count\<close> and on the one function-local
  \<open>static bool hasSleep\<close>. The test \<open>if(!hasSleep)\<close> (line 64) and the assignment
  \<open>hasSleep = true\<close> (line 66) are separate accesses with no lock between them, so
  another thread may run in between. The world is the shared flag and the list of
  threads; a step is one thread's loop iteration up to and including the test, one
  thread's assignment with what follows it in the branch, or the acceptor starting a
  new thread. Reads and writes themselves always succeed here: this theory is about
  the interleaving; failures are modelled in theory \<open>Server\<close>.
\<close>

datatype tpc = AtLoop | AtSet

text \<open>
  \<open>AtSet\<close>: the thread has read \<open>hasSleep == false\<close> with \<open>count > 10\<close> and is about
  to execute line 66. \<open>tstalls\<close> counts the thread's \<open>sleep(12)\<close> calls.
\<close>

record thr =
  tcount :: int
  tpc :: tpc
  tstalls :: nat

record world =
  w_sleep :: bool
  thrs :: "thr list"

definition new_thr :: thr where
  "new_thr = \<lparr>tcount = 0, tpc = AtLoop, tstalls = 0\<rparr>"

definition world0 :: world where
  "world0 = \<lparr>w_sleep = False, thrs = []\<rparr>"

text \<open>Lines 49--64: read, echo, \<open>++count\<close>, and the test of \<open>hasSleep\<close>.\<close>

definition thr_echo :: "bool \<Rightarrow> thr \<Rightarrow> thr" where
  "thr_echo hs t =
     (let c = tcount t + 1 in t\<lparr>tcount := c, tpc := (if 10 < c \<and> \<not> hs then AtSet else AtLoop)\<rparr>)"

text \<open>Lines 66--69: \<open>count = 0\<close> and the stall; the assignment to \<open>hasSleep\<close> is the world's.\<close>

definition thr_set :: "thr \<Rightarrow> thr" where
  "thr_set t = t\<lparr>tcount := 0, tpc := AtLoop, tstalls := tstalls t + 1\<rparr>"

datatype tstep = TEcho nat | TSet nat | TSpawn

fun world_step :: "world \<Rightarrow> tstep \<Rightarrow> world option" where
  "world_step w (TEcho i) =
     (if i < length (thrs w) \<and> tpc (thrs w ! i) = AtLoop
      then Some (w\<lparr>thrs := (thrs w)[i := thr_echo (w_sleep w) (thrs w ! i)]\<rparr>) else None)"
| "world_step w (TSet i) =
     (if i < length (thrs w) \<and> tpc (thrs w ! i) = AtSet
      then Some (w\<lparr>w_sleep := True, thrs := (thrs w)[i := thr_set (thrs w ! i)]\<rparr>) else None)"
| "world_step w TSpawn = Some (w\<lparr>thrs := thrs w @ [new_thr]\<rparr>)"

inductive world_reach :: "world \<Rightarrow> bool" where
  init: "world_reach world0"
| step: "world_reach w \<Longrightarrow> world_step w e = Some w' \<Longrightarrow> world_reach w'"

fun world_run :: "world \<Rightarrow> tstep list \<Rightarrow> world option" where
  "world_run w [] = Some w"
| "world_run w (e # es) = (case world_step w e of None \<Rightarrow> None | Some w' \<Rightarrow> world_run w' es)"

definition total_stalls :: "world \<Rightarrow> nat" where
  "total_stalls w = sum_list (map tstalls (thrs w))"

text \<open>
  The invariant: a thread stalls at most once; a thread waiting at line 66 has not
  stalled; a thread that has stalled has set the flag.
\<close>

definition thr_ok :: "bool \<Rightarrow> thr \<Rightarrow> bool" where
  "thr_ok hs t \<longleftrightarrow> tstalls t \<le> 1 \<and> (tpc t = AtSet \<longrightarrow> tstalls t = 0) \<and> (0 < tstalls t \<longrightarrow> hs)"

definition world_inv :: "world \<Rightarrow> bool" where
  "world_inv w \<longleftrightarrow> (\<forall>t \<in> set (thrs w). thr_ok (w_sleep w) t)"

text \<open>Two connections; both pass the test before either sets the flag.\<close>

definition race_world :: world where
  "race_world = the (world_run world0
     ([TSpawn, TSpawn] @ replicate 11 (TEcho 0) @ replicate 11 (TEcho 1) @ [TSet 0, TSet 1]))"

subsection \<open>Lemmas\<close>

lemma thr_ok_mono: "thr_ok False t \<Longrightarrow> thr_ok True t"
  by (simp add: thr_ok_def)

lemma world_inv_step:
  assumes "world_inv w" "world_step w e = Some w'"
  shows "world_inv w'"
proof (cases e)
  case (TEcho i)
  with assms have i: "i < length (thrs w)" "tpc (thrs w ! i) = AtLoop"
    and w': "w' = w\<lparr>thrs := (thrs w)[i := thr_echo (w_sleep w) (thrs w ! i)]\<rparr>"
    by (auto split: if_splits)
  have "thr_ok (w_sleep w) (thrs w ! i)" using assms(1) i by (simp add: world_inv_def)
  then have "thr_ok (w_sleep w) (thr_echo (w_sleep w) (thrs w ! i))"
    by (auto simp: thr_ok_def thr_echo_def Let_def)
  with assms(1) show ?thesis
    by (auto simp: world_inv_def w' dest!: subsetD [OF set_update_subset_insert])
next
  case (TSet i)
  with assms have i: "i < length (thrs w)" "tpc (thrs w ! i) = AtSet"
    and w': "w' = w\<lparr>w_sleep := True, thrs := (thrs w)[i := thr_set (thrs w ! i)]\<rparr>"
    by (auto split: if_splits)
  have "thr_ok (w_sleep w) (thrs w ! i)" using assms(1) i by (simp add: world_inv_def)
  with i have "thr_ok True (thr_set (thrs w ! i))" by (simp add: thr_ok_def thr_set_def)
  moreover have "\<forall>t \<in> set (thrs w). thr_ok True t"
    using assms(1) by (auto simp: world_inv_def thr_ok_def)
  ultimately show ?thesis
    by (auto simp: world_inv_def w' dest!: subsetD [OF set_update_subset_insert])
next
  case TSpawn
  with assms show ?thesis by (auto simp: world_inv_def thr_ok_def new_thr_def)
qed

lemma world_reach_inv: "world_reach w \<Longrightarrow> world_inv w"
proof (induction rule: world_reach.induct)
  case init
  then show ?case by (simp add: world_inv_def world0_def)
next
  case (step w e w')
  from step.IH step.hyps(2) show ?case by (rule world_inv_step)
qed

lemma world_run_reach: "world_run w es = Some w' \<Longrightarrow> world_reach w \<Longrightarrow> world_reach w'"
  by (induction es arbitrary: w) (auto intro: world_reach.step split: option.splits)

lemma race_world_run:
  "world_run world0 ([TSpawn, TSpawn] @ replicate 11 (TEcho 0) @ replicate 11 (TEcho 1) @ [TSet 0, TSet 1])
   = Some \<lparr>w_sleep = True, thrs = [\<lparr>tcount = 0, tpc = AtLoop, tstalls = 1\<rparr>,
                                    \<lparr>tcount = 0, tpc = AtLoop, tstalls = 1\<rparr>]\<rparr>"
  by (simp add: world0_def new_thr_def thr_echo_def thr_set_def numeral_eq_Suc)

lemma race_world_reach: "world_reach race_world"
  unfolding race_world_def race_world_run option.sel
  by (rule world_run_reach [OF race_world_run world_reach.init])

lemma race_world_thrs:
  "w_sleep race_world \<and> thrs race_world = [\<lparr>tcount = 0, tpc = AtLoop, tstalls = 1\<rparr>,
                                       \<lparr>tcount = 0, tpc = AtLoop, tstalls = 1\<rparr>]"
  unfolding race_world_def race_world_run option.sel by simp

subsection \<open>Properties of the shared flag\<close>

text \<open>
  C30: whatever the interleaving of the connection threads, each thread stalls at most
  once: after its own assignment the flag is set and its test never succeeds again.
\<close>

theorem stall_once_per_thread:
  "world_reach w \<Longrightarrow> t \<in> set (thrs w) \<Longrightarrow> tstalls t \<le> 1"
  using world_reach_inv by (auto simp: world_inv_def thr_ok_def)

theorem stall_once_per_thread_witness:
  "world_reach race_world \<and> hd (thrs race_world) \<in> set (thrs race_world)
   \<and> tstalls (hd (thrs race_world)) \<le> 1"
proof -
  have m: "hd (thrs race_world) \<in> set (thrs race_world)" using race_world_thrs by simp
  from stall_once_per_thread [OF race_world_reach m] race_world_reach m show ?thesis by blast
qed

text \<open>
  C31: the check-then-set on \<open>static bool hasSleep\<close> races. Two connections that both
  reach their eleventh message before either executes \<open>hasSleep = true\<close> both stall,
  so the server stalls twice although the flag is meant to allow one stall per process;
  the unsynchronised accesses are also a data race in the C++ memory model.
\<close>

theorem two_threads_stall:
  "world_reach race_world \<and> length (thrs race_world) = 2 \<and> total_stalls race_world = 2"
  using race_world_reach race_world_thrs by (simp add: total_stalls_def)

end
