(* ===== verification/Write_Chain.thy ===== *)
theory Write_Chain
  imports Outbound_Queue
begin

text \<open>
  The client's asynchronous write loop (src/beast_issue_client.cpp, lines 181--212):
  \<open>doSend\<close> starts \<open>async_write\<close> of the queue front, and its completion handler
  \<open>on_write\<close> pops the front and calls \<open>doSend\<close> for the next message. With the stream
  completing every write with the same code \<open>ec\<close>, the chain is a recursive function;
  it terminates because every completion shortens \<open>sendMessageQueue_\<close>.
\<close>

function write_chain :: "err_code \<Rightarrow> session \<Rightarrow> sess_error + session" where
  "write_chain ec s =
     (case send_queue s of
        [] \<Rightarrow> Inr s
      | m # _ \<Rightarrow>
          (if OpWrite m \<in># pending s
           then (case session_step s (WriteDone ec m) of Inl e \<Rightarrow> Inl e | Inr t \<Rightarrow> write_chain ec t)
           else Inr s))"
  by pat_completeness auto

termination write_chain
proof (relation "measure (\<lambda>(ec, s). length (send_queue s))")
  show "wf (measure (\<lambda>(ec, s). length (send_queue s)))" by simp
next
  fix ec s m q t
  assume "send_queue s = m # q" "session_step s (WriteDone ec m) = Inr t"
  then have "send_queue t = q"
    by (auto simp: on_write_def do_send_def start_op_def fail_def log_line_def Let_def
        split: if_splits list.splits option.splits)
  with \<open>send_queue s = m # q\<close> show "((ec, t), (ec, s)) \<in> measure (\<lambda>(ec, s). length (send_queue s))"
    by simp
qed

declare write_chain.simps [simp del]

subsection \<open>Lemmas\<close>

lemma write_done_facts:
  assumes "send_queue s = m # q" "OpWrite m \<in># pending s" "ws_open s"
  shows "\<exists>t. session_step s (WriteDone ec m) = Inr t \<and> send_queue t = q \<and> ws_open t
     \<and> writes_of (calls t) = writes_of (calls s) @ (if q \<noteq> [] then [hd q] else [])
     \<and> pending t = pending s - {#OpWrite m#} + (if q \<noteq> [] then {#OpWrite (hd q)#} else {#})"
  using assms by (auto simp: on_write_def do_send_def start_op_def fail_def log_line_def Let_def)

subsection \<open>Termination of the write loop\<close>

text \<open>
  C34: termination of the write loop. When the stream is open and the front of the
  queue is being written, the chain of completions and \<open>doSend\<close> calls ends, whatever
  code the writes complete with, and it ends with the queue empty, no write outstanding,
  and every queued message handed to \<open>async_write\<close> in queue order.
\<close>

theorem write_chain_drains:
  "session_inv s \<Longrightarrow> ws_open s \<Longrightarrow> send_queue s \<noteq> [] \<Longrightarrow> OpWrite (hd (send_queue s)) \<in># pending s \<Longrightarrow>
     \<exists>t. write_chain ec s = Inr t \<and> send_queue t = [] \<and> nwrites (pending t) = 0
       \<and> writes_of (calls t) = writes_of (calls s) @ tl (send_queue s)"
proof (induction "length (send_queue s)" arbitrary: s)
  case 0
  then show ?case by simp
next
  case (Suc n)
  obtain m q where sq: "send_queue s = m # q" using Suc.prems(3) by (cases "send_queue s") auto
  with Suc.prems have w: "OpWrite m \<in># pending s" by simp
  from write_done_facts [OF sq w Suc.prems(2), of ec] obtain t where
    st: "session_step s (WriteDone ec m) = Inr t" and t: "send_queue t = q" "ws_open t"
    "writes_of (calls t) = writes_of (calls s) @ (if q \<noteq> [] then [hd q] else [])"
    "pending t = pending s - {#OpWrite m#} + (if q \<noteq> [] then {#OpWrite (hd q)#} else {#})" by blast
  have i: "session_inv t" using st Suc.prems(1) by (rule session_inv_step)
  have one: "nwrites (pending s) = 1"
    using Suc.prems(1) w by (auto simp: session_inv_def write_front_def nwrites_def
        dest: multi_member_split)
  have ch: "write_chain ec s = write_chain ec t" using sq w st by (subst write_chain.simps) simp
  show ?case
  proof (cases "q = []")
    case True
    have "write_chain ec t = Inr t" using t True by (subst write_chain.simps) simp
    with ch t True one w sq show ?thesis by simp
  next
    case False
    have "n = length (send_queue t)" using Suc.hyps(2) sq t by simp
    from Suc.hyps(1) [OF this i] t False obtain u where
      "write_chain ec t = Inr u" "send_queue u = []" "nwrites (pending u) = 0"
      "writes_of (calls u) = writes_of (calls t) @ tl (send_queue t)" by auto
    with ch t False sq show ?thesis by (cases q) auto
  qed
qed

theorem write_chain_drains_witness:
  "session_inv demo_session \<and> ws_open demo_session \<and> send_queue demo_session \<noteq> []
   \<and> OpWrite (hd (send_queue demo_session)) \<in># pending demo_session
   \<and> (\<exists>t. write_chain EcTimeout demo_session = Inr t \<and> send_queue t = [] \<and> nwrites (pending t) = 0
        \<and> writes_of (calls t) = writes_of (calls demo_session) @ tl (send_queue demo_session))"
proof -
  have i: "session_inv demo_session" using demo_session_reachable by (rule reachable_inv)
  have f: "ws_open demo_session" "send_queue demo_session \<noteq> []"
    "OpWrite (hd (send_queue demo_session)) \<in># pending demo_session"
    by (simp_all add: demo_session_eval)
  from write_chain_drains [OF i f, of EcTimeout] i f show ?thesis by blast
qed

end
