(* ===== verification/Session_Types.thy ===== *)
theory Session_Types
  imports Session
begin

text \<open>
  Well-formedness of the session's fields with respect to the C++ declarations and the
  options \<open>on_connect\<close> installs (src/beast_issue_client.cpp, lines 50--69 and
  98--128): the TCP expiry either unset or the 30 seconds
  of \<open>expires_after\<close>; the stream options either unset or exactly the values
  \<open>on_connect\<close> sets; and they are set whenever a handshake is outstanding, the
  stream is open, or the session reports itself connected. \<open>recvCount_\<close> is an
  unbounded \<open>int\<close> in the model and is not part of this invariant: a reachable session
  counts past \<open>INT_MAX\<close> (C38).
\<close>

definition options_set :: "session \<Rightarrow> bool" where
  "options_set s \<longleftrightarrow> ws_opt s = Some client_timeout \<and> text_mode s = Some True
     \<and> read_max s = Some 1048576"

definition session_wf :: "session \<Rightarrow> bool" where
  "session_wf s \<longleftrightarrow> tcp_expiry s \<in> {None, Some 30}
     \<and> ws_opt s \<in> {None, Some client_timeout}
     \<and> text_mode s \<in> {None, Some True}
     \<and> read_max s \<in> {None, Some 1048576}
     \<and> ((OpHandshake \<in># pending s \<or> ws_open s \<or> is_connected s) \<longrightarrow> options_set s)"

subsection \<open>Lemmas\<close>

lemma session_wf_new: "session_wf new_session"
  by (simp add: session_wf_def new_session_def)

lemma options_set_keep [simp]:
  "options_set (s\<lparr>pending := p\<rparr>) = options_set s"
  "options_set (s\<lparr>calls := c\<rparr>) = options_set s"
  "options_set (s\<lparr>diag := g\<rparr>) = options_set s"
  "options_set (s\<lparr>ws_open := b\<rparr>) = options_set s"
  "options_set (s\<lparr>is_connected := b\<rparr>) = options_set s"
  "options_set (s\<lparr>send_queue := q\<rparr>) = options_set s"
  "options_set (s\<lparr>recv_count := n\<rparr>) = options_set s"
  "options_set (s\<lparr>has_close := b\<rparr>) = options_set s"
  "options_set (s\<lparr>tcp_expiry := e\<rparr>) = options_set s"
  "options_set (s\<lparr>host := h, port := p'\<rparr>) = options_set s"
  by (simp_all add: options_set_def)

lemma wf_log_line [simp]: "session_wf (log_line e s) = session_wf s"
  by (simp add: session_wf_def log_line_def options_set_def)

lemma wf_fail [simp]: "session_wf (fail ec w s) = session_wf s"
  by (simp add: fail_def)

lemma wf_start_op:
  "session_wf s \<Longrightarrow> (op = OpHandshake \<longrightarrow> options_set s) \<Longrightarrow> session_wf (start_op op c s)"
  by (auto simp: session_wf_def start_op_def options_set_def)

lemma wf_remove:
  "session_wf s \<Longrightarrow> session_wf (s\<lparr>pending := pending s - {#op#}\<rparr>)"
  by (auto simp: session_wf_def options_set_def dest: in_diffD)

lemma wf_run: "session_wf s \<Longrightarrow> session_wf (run h p s)"
  unfolding run_def by (rule wf_start_op) (simp_all add: session_wf_def log_line_def options_set_def)

lemma wf_on_resolve: "session_wf s \<Longrightarrow> session_wf (on_resolve ec s)"
  unfolding on_resolve_def
  by (cases "ec = EcOk") (simp_all, rule wf_start_op, simp_all add: session_wf_def options_set_def)

lemma wf_on_connect: "session_wf s \<Longrightarrow> session_wf (on_connect ec s)"
  unfolding on_connect_def
  by (cases "ec = EcOk") (simp_all, rule wf_start_op, simp_all add: session_wf_def options_set_def)

lemma wf_on_handshake: "session_wf s \<Longrightarrow> options_set s \<Longrightarrow> session_wf (on_handshake ec s)"
  unfolding on_handshake_def
  by (cases "ec = EcOk") (simp_all, rule wf_start_op, simp_all add: session_wf_def options_set_def)

lemma wf_recv: "session_wf s \<Longrightarrow> session_wf (s\<lparr>recv_count := recv_count s + 1, diag := g\<rparr>)"
  by (simp add: session_wf_def options_set_def)

lemma wf_on_read: "session_wf s \<Longrightarrow> session_wf (on_read ec m s)"
  unfolding on_read_def Let_def by (simp add: wf_recv wf_start_op)

lemma wf_do_send: "session_wf s \<Longrightarrow> session_wf (do_send m s)"
  by (simp add: do_send_def wf_start_op)

lemma wf_send_queue [simp]: "session_wf (s\<lparr>send_queue := q\<rparr>) = session_wf s"
  by (simp add: session_wf_def options_set_def)

lemma wf_send_message: "session_wf s \<Longrightarrow> session_wf (send_message m s)"
  by (simp add: send_message_def Let_def wf_do_send)

lemma wf_on_write: "session_wf s \<Longrightarrow> on_write ec s = Some t \<Longrightarrow> session_wf t"
proof -
  assume w: "session_wf s" and o: "on_write ec s = Some t"
  then obtain m q where sq: "send_queue s = m # q" by (auto simp: on_write_def split: list.splits)
  let ?s1 = "s\<lparr>send_queue := q\<rparr>"
  let ?s2 = "if ec \<noteq> EcOk then (let s' = fail ec ''write'' ?s1 in
               if ec = EcTimeout then log_line LogIdleWrite s' else s') else ?s1"
  have "session_wf ?s2" using w by (simp add: Let_def)
  moreover have "t = (if q \<noteq> [] then do_send (hd q) ?s2 else ?s2)"
    using o sq by (simp add: on_write_def Let_def)
  ultimately show ?thesis by (simp add: wf_do_send)
qed

lemma wf_close: "session_wf s \<Longrightarrow> session_wf (close s)"
  unfolding close_def
  by (cases "has_close s") (simp_all, rule wf_start_op, simp_all add: session_wf_def options_set_def)

lemma wf_on_close: "session_wf s \<Longrightarrow> session_wf (on_close ec s)"
  by (simp add: on_close_def)

lemma wf_complete:
  "session_wf s \<Longrightarrow> (\<And>u. session_wf u \<Longrightarrow> session_wf (h u)) \<Longrightarrow> complete op h s = Inr t \<Longrightarrow> session_wf t"
  by (auto simp: complete_def wf_remove split: if_splits)

lemma session_wf_step:
  assumes "session_step s e = Inr t" "session_wf s"
  shows "session_wf t"
proof (cases e)
  case (HandshakeDone ec)
  with assms(1) have p: "OpHandshake \<in># pending s"
    and t: "t = on_handshake ec ((s\<lparr>pending := pending s - {#OpHandshake#}\<rparr>)\<lparr>ws_open := (ec = EcOk)\<rparr>)"
    by (simp_all add: complete_def split: if_splits)
  from assms(2) p have o: "options_set s" by (simp add: session_wf_def)
  have "session_wf (s\<lparr>pending := pending s - {#OpHandshake#}\<rparr>)" using assms(2) by (rule wf_remove)
  with o have "session_wf ((s\<lparr>pending := pending s - {#OpHandshake#}\<rparr>)\<lparr>ws_open := (ec = EcOk)\<rparr>)"
    by (simp add: session_wf_def options_set_def)
  moreover have "options_set ((s\<lparr>pending := pending s - {#OpHandshake#}\<rparr>)\<lparr>ws_open := (ec = EcOk)\<rparr>)"
    using o by (simp add: options_set_def)
  ultimately show ?thesis unfolding t by (rule wf_on_handshake)
next
  case (WriteDone ec m)
  with assms(1) have "on_write ec (s\<lparr>pending := pending s - {#OpWrite m#}\<rparr>) = Some t"
    by (simp split: if_splits option.splits)
  moreover have "session_wf (s\<lparr>pending := pending s - {#OpWrite m#}\<rparr>)" using assms(2) by (rule wf_remove)
  ultimately show ?thesis by (rule wf_on_write [rotated])
next
  case (Run h p)
  with assms(1) have "t = run h p s" by simp
  with assms(2) show ?thesis by (simp add: wf_run)
next
  case (SendMessage m)
  with assms(1) have "t = send_message m s" by simp
  with assms(2) show ?thesis by (simp add: wf_send_message)
next
  case CloseCall
  with assms(1) have "t = close s" by simp
  with assms(2) show ?thesis by (simp add: wf_close)
next
  case (ResolveDone ec)
  with assms(1) have c: "complete OpResolve (on_resolve ec) s = Inr t" by simp
  have h: "\<And>u. session_wf u \<Longrightarrow> session_wf (on_resolve ec u)" by (rule wf_on_resolve)
  from wf_complete [OF assms(2) h c] show ?thesis .
next
  case (ConnectDone ec)
  with assms(1) have c: "complete OpConnect (on_connect ec) s = Inr t" by simp
  have h: "\<And>u. session_wf u \<Longrightarrow> session_wf (on_connect ec u)" by (rule wf_on_connect)
  from wf_complete [OF assms(2) h c] show ?thesis .
next
  case (ReadDone ec m)
  with assms(1) have c: "complete OpRead (on_read ec m) s = Inr t" by simp
  have h: "\<And>u. session_wf u \<Longrightarrow> session_wf (on_read ec m u)" by (rule wf_on_read)
  from wf_complete [OF assms(2) h c] show ?thesis .
next
  case (CloseDone ec)
  with assms(1) have c: "complete OpClose (\<lambda>u. on_close ec (u\<lparr>ws_open := False\<rparr>)) s = Inr t" by simp
  have h: "\<And>u. session_wf u \<Longrightarrow> session_wf (on_close ec (u\<lparr>ws_open := False\<rparr>))"
    by (rule wf_on_close) (simp add: session_wf_def options_set_def)
  from wf_complete [OF assms(2) h c] show ?thesis .
next
  case StreamLost
  with assms(1) have "t = s\<lparr>ws_open := False\<rparr>" by simp
  with assms(2) show ?thesis by (simp add: session_wf_def options_set_def)
qed

lemma connected_start_op [simp]: "is_connected (start_op op c s) = is_connected s"
  by (simp add: start_op_def)

lemma connected_log_line [simp]: "is_connected (log_line e s) = is_connected s"
  by (simp add: log_line_def)

lemma connected_fail [simp]: "is_connected (fail ec w s) = is_connected s"
  by (simp add: fail_def)

lemma connected_handlers [simp]:
  "is_connected (run h p s) = is_connected s"
  "is_connected (on_resolve ec s) = is_connected s"
  "is_connected (on_connect ec s) = is_connected s"
  "is_connected (on_handshake ec s) = (is_connected s \<or> ec = EcOk)"
  "is_connected (do_send m s) = is_connected s"
  "is_connected (send_message m s) = is_connected s"
  "is_connected (close s) = is_connected s"
  "is_connected (on_close ec s) = is_connected s"
  by (simp_all add: run_def on_resolve_def on_connect_def on_handshake_def do_send_def
      send_message_def close_def on_close_def Let_def)

lemma connected_on_read [simp]: "is_connected (on_read ec m s) = is_connected s"
  unfolding on_read_def Let_def by simp

lemma connected_on_write: "on_write ec s = Some t \<Longrightarrow> is_connected t = is_connected s"
  unfolding on_write_def Let_def by (auto split: list.splits if_splits)

lemma connected_complete:
  assumes c: "complete op h s = Inr t" and h: "\<And>u. is_connected (h u) = is_connected u"
  shows "is_connected t = is_connected s"
proof -
  from c have "t = h (s\<lparr>pending := pending s - {#op#}\<rparr>)" by (simp add: complete_def split: if_splits)
  then show ?thesis by (simp add: h)
qed

lemma read_echo_step:
  assumes "OpRead \<in># pending s" "ws_open s"
  shows "session_step s (ReadDone EcOk m) = Inr (on_read EcOk m (s\<lparr>pending := pending s - {#OpRead#}\<rparr>))
     \<and> recv_count (on_read EcOk m (s\<lparr>pending := pending s - {#OpRead#}\<rparr>)) = recv_count s + 1
     \<and> pending (on_read EcOk m (s\<lparr>pending := pending s - {#OpRead#}\<rparr>)) = pending s
     \<and> ws_open (on_read EcOk m (s\<lparr>pending := pending s - {#OpRead#}\<rparr>))"
  using assms by (simp add: complete_def on_read_def start_op_def Let_def)

lemma reads_reachable:
  "reachable s \<Longrightarrow> OpRead \<in># pending s \<Longrightarrow> ws_open s \<Longrightarrow>
     \<exists>t. reachable t \<and> recv_count t = recv_count s + int n \<and> OpRead \<in># pending t \<and> ws_open t"
proof (induction n arbitrary: s)
  case 0
  then show ?case by auto
next
  case (Suc n)
  let ?t = "on_read EcOk ''echo'' (s\<lparr>pending := pending s - {#OpRead#}\<rparr>)"
  from read_echo_step [OF Suc.prems(2,3), of "''echo''"] have
    st: "session_step s (ReadDone EcOk ''echo'') = Inr ?t" and
    f: "recv_count ?t = recv_count s + 1" "pending ?t = pending s" "ws_open ?t" by blast+
  have "reachable ?t" using Suc.prems(1) st by (rule reachable.step)
  from Suc.IH [OF this] f Suc.prems(2) obtain u where
    "reachable u" "recv_count u = recv_count ?t + int n" "OpRead \<in># pending u" "ws_open u" by auto
  with f show ?case by (intro exI [of _ u]) simp
qed

subsection \<open>The type invariant\<close>

text \<open>
  C35: every reachable session is well formed: the TCP expiry and the stream options
  only ever hold the values the handlers install, and
  those options are in place whenever a handshake is outstanding, the stream is open,
  or \<open>isConnected()\<close> holds; so \<open>sendMessage\<close> on a connected session writes text
  frames under the idle-timeout policy.
\<close>

theorem session_well_typed: "reachable s \<Longrightarrow> session_wf s"
proof (induction rule: reachable.induct)
  case init
  then show ?case by (rule session_wf_new)
next
  case (step s e t)
  from step.hyps(2) step.IH show ?case by (rule session_wf_step)
qed

theorem session_well_typed_witness: "reachable demo_session \<and> session_wf demo_session"
  using session_well_typed [OF demo_session_reachable] demo_session_reachable by blast

text \<open>
  C37: \<open>isConnected()\<close> is never reset. Once the handshake has succeeded, no call and
  no completion clears \<open>isConnected_\<close>: not \<open>close()\<close>, not the completion of the close
  request, not a failed read, not the loss of the stream. The spec's Scenario A says the
  flag holds from the connection \<^emph>\<open>until close\<close>.
\<close>

theorem connected_never_reset:
  assumes "session_step s e = Inr t" "isConnected s"
  shows "isConnected t"
proof -
  have "is_connected s \<longrightarrow> is_connected t"
  proof (cases e)
    case (HandshakeDone ec)
    with assms(1) have "complete OpHandshake (\<lambda>u. on_handshake ec (u\<lparr>ws_open := (ec = EcOk)\<rparr>)) s = Inr t"
      by simp
    then show ?thesis by (auto simp: complete_def split: if_splits)
  next
    case (WriteDone ec m)
    with assms(1) have "on_write ec (s\<lparr>pending := pending s - {#OpWrite m#}\<rparr>) = Some t"
      by (simp split: if_splits option.splits)
    then show ?thesis by (simp add: connected_on_write)
  next
    case (ResolveDone ec)
    with assms(1) have "complete OpResolve (on_resolve ec) s = Inr t" by simp
    then show ?thesis by (auto dest: connected_complete)
  next
    case (ConnectDone ec)
    with assms(1) have "complete OpConnect (on_connect ec) s = Inr t" by simp
    then show ?thesis by (auto dest: connected_complete)
  next
    case (ReadDone ec m)
    with assms(1) have "complete OpRead (on_read ec m) s = Inr t" by simp
    then show ?thesis by (auto dest: connected_complete)
  next
    case (CloseDone ec)
    with assms(1) have "complete OpClose (\<lambda>u. on_close ec (u\<lparr>ws_open := False\<rparr>)) s = Inr t" by simp
    then show ?thesis by (auto dest: connected_complete)
  qed (use assms(1) in \<open>auto simp del: isConnected_def\<close>)
  with assms(2) show ?thesis by simp
qed

theorem connected_never_reset_witness:
  "session_step (new_session\<lparr>is_connected := True, ws_open := True, has_close := True, pending := {#OpClose#}\<rparr>)
      (CloseDone EcOk)
     = Inr (on_close EcOk (new_session\<lparr>is_connected := True, ws_open := False, has_close := True, pending := {#}\<rparr>))
   \<and> isConnected (new_session\<lparr>is_connected := True, ws_open := True, has_close := True, pending := {#OpClose#}\<rparr>)
   \<and> isConnected (on_close EcOk (new_session\<lparr>is_connected := True, ws_open := False, has_close := True, pending := {#}\<rparr>))"
proof -
  let ?s = "new_session\<lparr>is_connected := True, ws_open := True, has_close := True, pending := {#OpClose#}\<rparr>"
  let ?t = "on_close EcOk (new_session\<lparr>is_connected := True, ws_open := False, has_close := True, pending := {#}\<rparr>)"
  have st: "session_step ?s (CloseDone EcOk) = Inr ?t" by (simp add: complete_def new_session_def)
  have c: "isConnected ?s" by simp
  from connected_never_reset [OF st c] st c show ?thesis by blast
qed

text \<open>
  C38: \<open>recvCount_\<close> overflows. The read loop re-arms while the stream is open and
  nothing bounds the number of messages a peer sends, so a reachable session has
  received more than \<open>INT_MAX\<close> messages: \<open>++recvCount_\<close> (line 157) is then a signed
  overflow, undefined behaviour in C++, after which \<open>getRecvCount() <= 20\<close> in
  \<open>main\<close> may hold again.
\<close>

theorem recv_count_overflow: "\<exists>s. reachable s \<and> 2 ^ 31 - 1 < recv_count s"
proof -
  have f: "OpRead \<in># pending demo_session" "ws_open demo_session" "recv_count demo_session = 0"
    by (simp_all add: demo_session_eval)
  from reads_reachable [OF demo_session_reachable f(1,2), of "2 ^ 31"] f(3)
  show ?thesis by auto
qed

end
