(* ===== verification/Spec2Isabelle.thy ===== *)
theory Spec2Isabelle
  imports Client_Main Server_Main Server_Threads Write_Chain Session_Types
begin

text \<open>
  \<^bold>\<open>A verification model of beast_test: a Boost.Beast WebSocket client that sends
  bursts of messages and an echo server that stalls once.\<close>

  \<^bold>\<open>The program.\<close> src/beast_issue_client.cpp holds the client: the class
  \<open>WebsocketSession\<close> (resolve, connect, handshake, a read loop, a FIFO send queue
  with a single write in flight, an idempotent \<open>close\<close>) and \<open>main\<close>, a polling loop
  that advances a stage machine \<open>kStageInit \<rightarrow> kStageConnecting \<rightarrow> kStageConnected \<rightarrow>
  kStageClosing\<close> and feeds the queue with bursts of \<open>userMsg:<n>\<close> messages until more
  than 20 echoes have been received. src/beast_issue_server.cpp holds the server:
  \<open>main\<close> checks its arguments, converts the port with \<open>atoi\<close> and a cast to
  \<open>unsigned short\<close>, and detaches a thread per connection running \<open>do_session\<close>, a
  blocking read-echo loop that sleeps once, after its eleventh message, on a
  function-local \<open>static bool hasSleep\<close> shared by all threads.

  \<^bold>\<open>Theories\<close> (each imports the ones it builds on; this root imports all).
  \<^item> \<open>Prelude\<close>: the error-code classification both programs test, the named
    collections \<open>handler_defs\<close> and \<open>inv_defs\<close>, generic multiset and list lemmas.
  \<^item> \<open>Session\<close>: \<open>WebsocketSession\<close> as the record \<open>session\<close>, one definition per
    member function (\<open>run\<close>, \<open>on_resolve\<close>, \<open>on_connect\<close>, \<open>on_handshake\<close>,
    \<open>on_read\<close>, \<open>send_message\<close>, \<open>do_send\<close>, \<open>on_write\<close>, \<open>close\<close>, \<open>on_close\<close>).
    Beast's stream is the environment: the operations the session started are the
    multiset \<open>pending\<close>, the calls into the stream the list \<open>calls\<close>. \<open>session_step\<close>
    applies one event (a call of the program or the completion of a pending operation
    with its error code; errors are values \<open>Inl\<close>, \<open>pop_front\<close> on an empty list is
    \<open>PopEmpty\<close>); \<open>reachable\<close> is the set of states reached from the constructor. The
    invariant \<open>session_inv\<close> (one write in flight whose buffer is the queue front, one
    close request exactly when \<open>hasClose_\<close> is set, one connect chain per \<open>run\<close>) holds
    in every reachable state, by rule induction with one preservation lemma per
    conjunct. The lemmas give the read loop and \<open>close\<close> on every branch.
  \<^item> \<open>Session_Types\<close>: the type invariant \<open>session_wf\<close> of the session's fields
    (non-negative \<open>recvCount_\<close>, option values only as \<open>on_connect\<close> installs them, and
    installed whenever a handshake is outstanding, the stream is open or the session
    is connected), one preservation lemma per handler; and that \<open>isConnected()\<close>,
    once true, is never reset by any call or completion.
  \<^item> \<open>Write_Chain\<close>: the asynchronous write loop (\<open>doSend\<close>, \<open>async_write\<close>,
    \<open>on_write\<close>) as a \<open>function\<close> whose termination is proved with the measure
    \<open>length sendMessageQueue_\<close>; it drains the queue in order for any completion code.
  \<^item> \<open>Outbound_Queue\<close>: an abstract FIFO (transmitted and waiting payloads) and the
    refinement of the session's queue into it: every accepted event is an enqueue
    followed by at most one transmit, hence FIFO submission order for any run.
  \<^item> \<open>Messages\<close>: the decimal text \<open>userMsg:<n>\<close> that \<open>operator<<(int)\<close> writes, and a
    parser with the round trip.
  \<^item> \<open>Driver\<close>: \<open>main\<close>'s loop as the record \<open>driver\<close> (its locals and the session it
    owns); \<open>main_iter k\<close> is one pass of the \<open>switch(stage)\<close> with \<open>k = rand() % 5\<close>;
    \<open>sys_step\<close> composes it with the completions that \<open>ioc.poll()\<close> delivers. The
    invariant \<open>drv_inv\<close> ties the stage to \<open>hasClose_\<close>, the work guard, \<open>run\<close> and the
    message numbering; \<open>stuck\<close> is a set of states closed under every step.
  \<^item> \<open>Client_Main\<close>: the argument check, the burst loop as a fold of \<open>sendMessage\<close>,
    queue growth and \<open>int\<close> overflow after the stream is lost.
  \<^item> \<open>Server\<close>: \<open>do_session\<close> as a function of the peer's script of reads and write
    results (structural recursion, so it is total), with \<open>hasSleep\<close> passed between
    the connections of \<open>srv_process\<close>, which covers connections whose handlers do not
    overlap in time; overlapping handlers are the subject of \<open>Server_Threads\<close>.
  \<^item> \<open>Server_Main\<close>: the argument check and the port conversion (\<open>atoi\<close>, and the
    cast as \<open>word_of_int\<close> into a \<open>16 word\<close>).
  \<^item> \<open>Server_Threads\<close>: the connection threads interleaved at the granularity of the
    test and the assignment of \<open>hasSleep\<close> (an \<open>inductive\<close> reachability over
    \<open>world_step\<close>), its invariant, and the race.

  \<^bold>\<open>What is shown.\<close> Single write and read in flight, buffer lifetime, close once
  and idempotent, completion of a write always defined, FIFO order and its refinement,
  echo payloads identical, the echo's opcode lagging by one message, no stall on a
  connection that starts after the flag is set, at most one stall per thread under any
  interleaving but two stalls when two threads pass the test together, stage
  monotonicity, close exactly at the Connected/Closing transition, quitting only when
  drained, and that after 21 echoes an environment that drains the outstanding
  operations lets the loop exit; and the liveness gap: once the stream is lost before
  21 echoes, no continuation closes or quits, the queue grows without bound and
  \<open>messageNo\<close> overflows. The server's port text round-trips and, within the range
  of \<open>int\<close> where \<open>atoi\<close> is defined, wraps modulo 65536; a malformed one silently
  becomes port 0. The client's \<open>recvCount_\<close> and, after the stall, the server's
  per-connection \<open>int count\<close> both exceed \<open>INT_MAX\<close> in reachable states: the model
  keeps these counters as unbounded integers precisely to exhibit the overflow, and no
  other property depends on their staying in range. Witnesses evaluate concrete runs by \<open>simp\<close>; where a run has 21 reads or
  \<open>2^31\<close> iterations it is described by a lemma proved by induction over the number
  of steps, not unfolded. No model uses fuel: every loop of the code is a structural
  recursion over its input script, a step of a relation, or (the write loop) a
  \<open>function\<close> with a termination proof.

  \<^bold>\<open>Not modelled.\<close> Name resolution, TCP and the WebSocket framing inside Beast and
  Asio are environment: their results are the error codes of completion events. The
  idle/keepalive timeout monitor is partly modelled: its configuration is the recorded
  \<open>stream_base::timeout\<close> value, and its effect is the \<open>EcTimeout\<close> completions and the
  \<open>StreamLost\<close> event. Its timer and its pings are implemented in Beast, not in this
  repository, and time is not part of the model. For the same reason the real-time
  durations of \<open>expires_after\<close>, \<open>sleep(12)\<close> and \<open>usleep\<close> and the \<open>Clock::now()\<close>
  reads in \<open>main\<close> (which are never used) are left out. \<open>make_address\<close> and the bind
  of the acceptor belong to Asio. Some code only prints and has no effect on the
  state: the timestamp formatting \<open>show_current_time\<close>, the \<open>std::cout\<close> lines of the
  server and of the session's destructor, and the user-agent and server decorators.
  \<open>atoi\<close> is modelled on unbounded integers: its own overflow is undefined in C and
  out of scope.
\<close>

end
